theory Spec2Isabelle
  imports Main
begin

section \<open>Python values used by the part tree\<close>

text \<open>
  Exceptions of the Python source are values: every function that can raise returns
  \<open>error + 'a\<close>, with \<open>Inl\<close> carrying the exception.  \<open>CountError\<close> and
  \<open>LoopError\<close> are the two exceptions of the tree library (anytree): a search
  restricted to one result raises the first when several nodes match, and setting the
  parent of a node to itself or to one of its descendants raises the second.
\<close>

datatype error = IndexError | KeyError | ValueError | AttributeError | CountError | LoopError

subsection \<open>Strings\<close>

definition digit_char :: "nat \<Rightarrow> char" where
  "digit_char d = char_of (48 + d)"

text \<open>\<open>str(n)\<close> inside an f-string, for the non-negative indices the source formats.\<close>

function str_nat :: "nat \<Rightarrow> string" where
  "str_nat n = (if n < 10 then [digit_char n] else str_nat (n div 10) @ [digit_char (n mod 10)])"
  by pat_completeness auto
termination
  by (relation "measure (\<lambda>n. n)") auto

declare str_nat.simps [simp del]

definition is_space :: "char \<Rightarrow> bool" where
  "is_space c = (c \<in> set [CHR '' '', CHR 0x09, CHR 0x0A, CHR 0x0B, CHR 0x0C, CHR 0x0D])"

definition is_digit :: "char \<Rightarrow> bool" where
  "is_digit c = (48 \<le> (of_char c :: nat) \<and> (of_char c :: nat) \<le> 57)"

definition strip :: "string \<Rightarrow> string" where
  "strip s = rev (dropWhile is_space (rev (dropWhile is_space s)))"

text \<open>
  The digits of an integer literal as \<open>int()\<close> reads them: a non-empty run of
  digits in which single underscores may separate digits.  The accumulator is the value
  read so far; the flag says whether the previous character was a digit.
\<close>

fun digits_value :: "bool \<Rightarrow> nat \<Rightarrow> string \<Rightarrow> nat option" where
  "digits_value prev acc [] = (if prev then Some acc else None)"
| "digits_value prev acc (c # cs) =
     (if is_digit c then digits_value True (10 * acc + (of_char c - 48)) cs
      else if c = CHR ''_'' \<and> prev then digits_value False acc cs
      else None)"

text \<open>\<open>int(s)\<close> on a string of ASCII characters: surrounding white space, an optional
  sign, the digits; anything else raises \<open>ValueError\<close>.\<close>

definition int_of_str :: "string \<Rightarrow> error + int" where
  "int_of_str s =
     (case strip s of
        [] \<Rightarrow> Inl ValueError
      | c # cs \<Rightarrow>
          (if c = CHR ''-'' then
             (case digits_value False 0 cs of None \<Rightarrow> Inl ValueError | Some v \<Rightarrow> Inr (- int v))
           else if c = CHR ''+'' then
             (case digits_value False 0 cs of None \<Rightarrow> Inl ValueError | Some v \<Rightarrow> Inr (int v))
           else
             (case digits_value False 0 (c # cs) of None \<Rightarrow> Inl ValueError | Some v \<Rightarrow> Inr (int v))))"




definition lower_char :: "char \<Rightarrow> char" where
  "lower_char c =
     (if 65 \<le> (of_char c :: nat) \<and> (of_char c :: nat) \<le> 90 then char_of ((of_char c :: nat) + 32) else c)"

definition lower :: "string \<Rightarrow> string" where
  "lower s = map lower_char s"

subsection \<open>Lists\<close>

text \<open>\<open>xs[i]\<close>: a negative index counts from the end, an index out of range raises.\<close>

definition getitem :: "'a list \<Rightarrow> int \<Rightarrow> error + 'a" where
  "getitem xs i =
     (if 0 \<le> i \<and> i < int (length xs) then Inr (xs ! nat i)
      else if i < 0 \<and> - int (length xs) \<le> i then Inr (xs ! nat (int (length xs) + i))
      else Inl IndexError)"

text \<open>\<open>xs.index(v)\<close>: the first position holding \<open>v\<close>, \<open>ValueError\<close> when there is none.\<close>

fun index_from :: "nat \<Rightarrow> 'a list \<Rightarrow> 'a \<Rightarrow> error + nat" where
  "index_from k [] v = Inl ValueError"
| "index_from k (x # xs) v = (if x = v then Inr k else index_from (Suc k) xs v)"

definition index_of :: "'a list \<Rightarrow> 'a \<Rightarrow> error + nat" where
  "index_of xs v = index_from 0 xs v"

section \<open>Sequence model, elements and referents\<close>

text \<open>
  Interfaces and gaps are objects of the sequence model; the tree compares them by
  identity, so each carries a reference number next to the attributes the part tree
  reads: the interaction mode, whether the interface is a \<open>ThinLens\<close>, the name of
  the gap's medium.  Apertures and coordinate transforms are passed through by the
  source without being inspected, and are left out.
\<close>

record interface =
  ifc_ref :: nat
  interact_mode :: string
  is_thinlens :: bool

record gap =
  gap_ref :: nat
  medium_name :: string

record seq_model =
  ifcs :: "interface list"
  gaps :: "gap list"
  stop_surface :: "int option"
  z_dir :: "int list"

text \<open>
  Modelled from the spec: the element classes of \<open>rayoptics.elem.elements\<close>
  (\<open>Element\<close>, \<open>CementedElement\<close>, \<open>Mirror\<close>, \<open>ThinElement\<close>,
  \<open>DummyInterface\<close>, \<open>AirGap\<close>) are not part of the source at hand.  An element is
  its label together with the constituents its constructor received.
\<close>

datatype part =
    Element interface interface gap nat nat
  | CementedElement "(nat \<times> interface \<times> gap) list"
  | Mirror interface nat int
  | ThinElement interface nat
  | DummyInterface interface nat
  | AirGap gap nat

record element =
  label :: string
  part :: part

datatype obj =
    PartTreeObj
  | IfcObj interface
  | GapObj gap
  | ProfileObj interface
  | EleObj element

text \<open>The \<open>profile\<close> attribute of an interface: one profile object per interface.\<close>

definition profile :: "interface \<Rightarrow> obj" where
  "profile s = ProfileObj s"

section \<open>Tree nodes\<close>

text \<open>
  A node of the tree library with the three attributes the source sets (\<open>name\<close>,
  \<open>id\<close>, \<open>tag\<close>) and its ordered children.  A node imported from a serialized
  tree has no \<open>id\<close> attribute: \<open>node_id\<close> is \<open>None\<close>.  A node object is
  addressed by its handle, the list of child positions leading to it from the root.
\<close>

datatype node = Node (name: string) (node_id: "obj option") (tag: string) (children: "node list")

type_synonym handle = "nat list"

fun subtree :: "node \<Rightarrow> handle \<Rightarrow> node option" where
  "subtree n [] = Some n"
| "subtree n (k # h) = (if k < length (children n) then subtree (children n ! k) h else None)"

text \<open>\<open>PreOrderIter\<close>: the node, then the subtrees of its children from left to right.\<close>

fun PreOrderIter :: "node \<Rightarrow> node list" and PreOrderIter_list :: "node list \<Rightarrow> node list" where
  "PreOrderIter (Node n i t cs) = Node n i t cs # PreOrderIter_list cs"
| "PreOrderIter_list [] = []"
| "PreOrderIter_list (c # cs) = PreOrderIter c @ PreOrderIter_list cs"

text \<open>The handles of the nodes that satisfy a filter, in pre-order.\<close>

fun findall :: "(node \<Rightarrow> bool) \<Rightarrow> node \<Rightarrow> handle list"
  and findall_from :: "(node \<Rightarrow> bool) \<Rightarrow> nat \<Rightarrow> node list \<Rightarrow> handle list" where
  "findall P (Node n i t cs) = (if P (Node n i t cs) then [[]] else []) @ findall_from P 0 cs"
| "findall_from P k [] = []"
| "findall_from P k (c # cs) = map ((#) k) (findall P c) @ findall_from P (Suc k) cs"

text \<open>
  \<open>find_by_attr\<close> of the tree library: the one node whose attribute equals the value,
  \<open>None\<close> when no node matches, \<open>CountError\<close> when more than one does.  A node
  without the attribute does not match.
\<close>

definition find_one :: "(node \<Rightarrow> bool) \<Rightarrow> node \<Rightarrow> error + handle option" where
  "find_one P rt =
     (case findall P rt of [] \<Rightarrow> Inr None | [h] \<Rightarrow> Inr (Some h) | _ \<Rightarrow> Inl CountError)"

definition find_by_attr_id :: "node \<Rightarrow> obj \<Rightarrow> error + handle option" where
  "find_by_attr_id rt v = find_one (\<lambda>n. node_id n = Some v) rt"

definition find_by_attr_name :: "node \<Rightarrow> string \<Rightarrow> error + handle option" where
  "find_by_attr_name rt v = find_one (\<lambda>n. name n = v) rt"

section \<open>PartTree\<close>

text \<open>A part tree is its root node; \<open>__init__\<close> creates the root, whose referent is the
  part tree itself.\<close>

definition init_root :: node where
  "init_root = Node ''root'' (Some PartTreeObj) ''#group#root'' []"

text \<open>\<open>PartTree.node\<close>\<close>

definition node :: "node \<Rightarrow> obj \<Rightarrow> error + handle option" where
  "node root_node ob = find_by_attr_id root_node ob"

text \<open>
  \<open>PartTree.parent_node\<close>.  The loop climbs from the parent of the located node: a
  node whose tag contains one of the filter's tags is returned, the parent of the root is
  \<open>None\<close>.  \<open>climb tags root (Some h)\<close> is the loop with \<open>parent_node\<close> at
  handle \<open>h\<close>.
\<close>

definition parent_handle :: "handle \<Rightarrow> handle option" where
  "parent_handle h = (if h = [] then None else Some (butlast h))"






subsection \<open>Changing the parent of a node\<close>

text \<open>\<open>n.parent = None\<close>: the subtree at the handle leaves the tree; on the root,
  which has no parent, nothing changes.\<close>

fun detach :: "handle \<Rightarrow> node \<Rightarrow> node" where
  "detach [] n = n"
| "detach (k # h) (Node n i t cs) =
     (if h = [] then Node n i t (take k cs @ drop (Suc k) cs)
      else if k < length cs then Node n i t (cs[k := detach h (cs ! k)])
      else Node n i t cs)"

text \<open>A node becomes the last child of the node at the handle.\<close>

fun append_child :: "handle \<Rightarrow> node \<Rightarrow> node \<Rightarrow> node" where
  "append_child [] c (Node n i t cs) = Node n i t (cs @ [c])"
| "append_child (k # h) c (Node n i t cs) =
     (if k < length cs then Node n i t (cs[k := append_child h c (cs ! k)])
      else Node n i t cs)"

text \<open>
  The parent setter of the tree library, \<open>n.parent = value\<close> for the node at handle
  \<open>h\<close>: nothing happens when \<open>value\<close> already is the parent; a new parent that is
  the node itself or lies below it raises \<open>LoopError\<close>; otherwise the node is removed
  from its old parent and appended to the children of the new one.
\<close>

definition set_parent :: "node \<Rightarrow> handle \<Rightarrow> handle option \<Rightarrow> error + node" where
  "set_parent rt h new =
     (if parent_handle h = new then Inr rt
      else case new of
             None \<Rightarrow> Inr (detach h rt)
           | Some d \<Rightarrow>
               if take (length h) d = h then Inl LoopError
               else (case subtree rt h of
                       None \<Rightarrow> Inr rt
                     | Some sub \<Rightarrow> Inr (detach h (append_child d sub rt))))"

definition bnd :: "error + 'a \<Rightarrow> ('a \<Rightarrow> error + 'b) \<Rightarrow> error + 'b" where
  "bnd m f = (case m of Inl e \<Rightarrow> Inl e | Inr v \<Rightarrow> f v)"

subsection \<open>Element fragments\<close>

text \<open>
  Modelled from the spec: \<open>interface_list\<close>, \<open>ref_ifc\<close> and \<open>intrfc\<close> of the
  element classes, which are not part of the source at hand: the ordered interfaces of
  an element, and the single reference interface of a dummy interface and of a thin
  element.  An element without the attribute raises \<open>AttributeError\<close>.
\<close>

definition interface_list :: "element \<Rightarrow> error + interface list" where
  "interface_list e =
     (case part e of
        Element s1 s2 g i1 i2 \<Rightarrow> Inr [s1, s2]
      | CementedElement il \<Rightarrow> Inr (map (\<lambda>(i, s, g). s) il)
      | Mirror s i z \<Rightarrow> Inr [s]
      | ThinElement s i \<Rightarrow> Inr [s]
      | DummyInterface s i \<Rightarrow> Inr [s]
      | AirGap g i \<Rightarrow> Inl AttributeError)"

definition ref_ifc :: "element \<Rightarrow> error + interface" where
  "ref_ifc e = (case part e of DummyInterface s i \<Rightarrow> Inr s | _ \<Rightarrow> Inl AttributeError)"

definition intrfc :: "element \<Rightarrow> error + interface" where
  "intrfc e = (case part e of ThinElement s i \<Rightarrow> Inr s | _ \<Rightarrow> Inl AttributeError)"

text \<open>
  Modelled from the spec: the \<open>tree\<close> method of the element classes, which is not
  part of the source at hand.  It builds the canonical fragment of an element: a node
  that references the element, with the relative names \<open>p1..pN\<close> for the profiles
  and a single \<open>di\<close> or \<open>tl\<close> child for a dummy interface or a thin element; the
  leaves reference the interfaces and gaps the element subsumes.  Interface nodes hang
  below the profile nodes and gap nodes below the element node, as the re-parenting code
  of \<open>elements_from_sequence\<close> arranges them.  A tag passed by the caller is appended
  to the tag of the variant.
\<close>

definition ifc_node :: "nat \<Rightarrow> interface \<Rightarrow> node" where
  "ifc_node i s = Node (''i'' @ str_nat i) (Some (IfcObj s)) ''#ifc'' []"

definition gap_node :: "nat \<Rightarrow> gap \<Rightarrow> node" where
  "gap_node i g = Node (''g'' @ str_nat i) (Some (GapObj g)) ''#gap'' []"

definition profile_node :: "nat \<Rightarrow> nat \<Rightarrow> interface \<Rightarrow> node" where
  "profile_node k i s = Node (''p'' @ str_nat k) (Some (profile s)) ''#profile'' [ifc_node i s]"

fun cemented_children :: "nat \<Rightarrow> (nat \<times> interface \<times> gap) list \<Rightarrow> node list" where
  "cemented_children k [] = []"
| "cemented_children k ((i, s, g) # rest) =
     (if rest = [] then [profile_node k i s]
      else profile_node k i s # gap_node i g # cemented_children (Suc k) rest)"

definition tag_suffix :: "string option \<Rightarrow> string" where
  "tag_suffix tg = (case tg of None \<Rightarrow> [] | Some t \<Rightarrow> t)"

definition tree :: "element \<Rightarrow> string option \<Rightarrow> node" where
  "tree e tg =
     (case part e of
        Element s1 s2 g i1 i2 \<Rightarrow>
          Node ''E'' (Some (EleObj e)) (''#element#lens'' @ tag_suffix tg)
            [profile_node 1 i1 s1, gap_node i1 g, profile_node 2 i2 s2]
      | CementedElement il \<Rightarrow>
          Node ''CE'' (Some (EleObj e)) (''#element#cemented'' @ tag_suffix tg)
            (cemented_children 1 il)
      | Mirror s i z \<Rightarrow>
          Node ''M'' (Some (EleObj e)) (''#element#mirror'' @ tag_suffix tg)
            [profile_node 1 i s]
      | ThinElement s i \<Rightarrow>
          Node ''TL'' (Some (EleObj e)) (''#element#thinlens'' @ tag_suffix tg)
            [Node ''tl'' (Some (IfcObj s)) ''#ifc'' []]
      | DummyInterface s i \<Rightarrow>
          Node ''DI'' (Some (EleObj e)) (''#dummyifc'' @ tag_suffix tg)
            [Node ''di'' (Some (IfcObj s)) ''#ifc'' []]
      | AirGap g i \<Rightarrow>
          Node ''AG'' (Some (EleObj e)) (''#airgap'' @ tag_suffix tg)
            [gap_node i g])"

subsection \<open>Building the tree\<close>

text \<open>\<open>PartTree.init_from_sequence\<close>: the loop over \<open>enumerate(seq_model.ifcs[1:-1],
  start=1)\<close>.\<close>

fun init_loop :: "nat \<Rightarrow> interface list \<Rightarrow> seq_model \<Rightarrow> node \<Rightarrow> error + node" where
  "init_loop i [] sm rt = Inr rt"
| "init_loop i (s # ss) sm rt =
     (let rt1 = append_child [] (Node (''i'' @ str_nat i) (Some (IfcObj s)) ''#ifc'' []) rt in
      bnd (getitem (gaps sm) (int i)) (\<lambda>gp.
        init_loop (Suc i) ss sm
          (append_child [] (Node (''g'' @ str_nat i) (Some (GapObj gp)) ''#gap'' []) rt1)))"

definition init_from_sequence :: "node \<Rightarrow> seq_model \<Rightarrow> error + node" where
  "init_from_sequence rt sm = init_loop 1 (butlast (tl (ifcs sm))) sm rt"

text \<open>The \<open>leaves\<close> property of a node: the nodes without children, in pre-order.\<close>

definition leaves :: "node \<Rightarrow> node list" where
  "leaves n = filter (\<lambda>m. children m = []) (PreOrderIter n)"

text \<open>
  \<open>PartTree.add_element_to_tree\<close>.  \<open>detach_dups\<close> is its loop over the leaves of
  the fragment; \<open>attach_fragment\<close> is the method from the point where the fragment
  \<open>e_node\<close> has been built and named.
\<close>

fun detach_dups :: "node list \<Rightarrow> node \<Rightarrow> error + node" where
  "detach_dups [] rt = Inr rt"
| "detach_dups (leaf_node # ls) rt =
     (case node_id leaf_node of
        None \<Rightarrow> Inl AttributeError
      | Some ob \<Rightarrow>
          bnd (node rt ob) (\<lambda>dup_node.
            case dup_node of
              None \<Rightarrow> detach_dups ls rt
            | Some h \<Rightarrow> detach_dups ls (detach h rt)))"

definition attach_fragment :: "node \<Rightarrow> node \<Rightarrow> error + node" where
  "attach_fragment rt e_node =
     bnd (detach_dups (leaves e_node) rt) (\<lambda>rt1. Inr (append_child [] e_node rt1))"

definition set_name :: "string \<Rightarrow> node \<Rightarrow> node" where
  "set_name nm n = Node nm (node_id n) (tag n) (children n)"

definition add_element_to_tree :: "node \<Rightarrow> element \<Rightarrow> string option \<Rightarrow> error + node" where
  "add_element_to_tree rt e tg = attach_fragment rt (set_name (label e) (tree e tg))"

text \<open>The handle of the fragment that \<open>add_element_to_tree\<close> has just attached: the
  last child of the root.\<close>

definition last_child :: "node \<Rightarrow> handle" where
  "last_child rt = [length (children rt) - 1]"

section \<open>Serialization and the sync engine\<close>

text \<open>\<open>__json_encode__\<close> exports the name and the tag of every node and nothing else;
  \<open>DictImporter\<close> builds nodes that have these two attributes.\<close>

datatype json = JNode string string "json list"

fun export_node :: "node \<Rightarrow> json" where
  "export_node (Node n i t cs) = JNode n t (map export_node cs)"

fun import_node :: "json \<Rightarrow> node" where
  "import_node (JNode n t cs) = Node n None t (map import_node cs)"

text \<open>\<open>{e.label: e for e in ele_model.elements}\<close>: a later element replaces an
  earlier one with the same label.\<close>

definition ele_dict :: "element list \<Rightarrow> string \<Rightarrow> element option" where
  "ele_dict es = map_of (rev (map (\<lambda>e. (label e, e)) es))"

text \<open>The element of the parent's name: \<open>ele_dict[node.parent.name]\<close>.\<close>

definition parent_element :: "(string \<Rightarrow> element option) \<Rightarrow> string option \<Rightarrow> error + element" where
  "parent_element d pn =
     (case pn of
        None \<Rightarrow> Inl AttributeError
      | Some p_name \<Rightarrow> (case d p_name of None \<Rightarrow> Inl KeyError | Some e \<Rightarrow> Inr e))"

text \<open>
  The body of the loop of \<open>sync_part_tree_on_restore\<close> for one node: the referent the
  node has afterwards.  \<open>pn\<close> is the name of the parent, \<open>None\<close> at the root.
  The last two tests compare the first character of the name, \<open>name[:1]\<close>, with a
  string of two characters.
\<close>

definition restore_id ::
  "(string \<Rightarrow> element option) \<Rightarrow> seq_model \<Rightarrow> string option \<Rightarrow> string \<Rightarrow> obj option
     \<Rightarrow> error + obj option" where
  "restore_id d sm pn nm old =
     (case d nm of
        Some e \<Rightarrow> Inr (Some (EleObj e))
      | None \<Rightarrow>
          (case nm of
             [] \<Rightarrow> Inl IndexError
           | c # rest \<Rightarrow>
               if c = CHR ''i'' then
                 bnd (int_of_str rest) (\<lambda>idx.
                 bnd (getitem (ifcs sm) idx) (\<lambda>s. Inr (Some (IfcObj s))))
               else if c = CHR ''g'' then
                 bnd (int_of_str rest) (\<lambda>idx.
                 bnd (getitem (gaps sm) idx) (\<lambda>g. Inr (Some (GapObj g))))
               else if c = CHR ''p'' then
                 bnd (parent_element d pn) (\<lambda>e.
                 bnd (int_of_str rest) (\<lambda>k.
                 bnd (interface_list e) (\<lambda>il.
                 bnd (getitem il (k - 1)) (\<lambda>s. Inr (Some (profile s))))))
               else if take 1 nm = ''di'' then
                 bnd (parent_element d pn) (\<lambda>e.
                 bnd (ref_ifc e) (\<lambda>s. Inr (Some (IfcObj s))))
               else if take 1 nm = ''tl'' then
                 bnd (parent_element d pn) (\<lambda>e.
                 bnd (intrfc e) (\<lambda>s. Inr (Some (IfcObj s))))
               else Inr old))"

fun restore_node ::
    "(string \<Rightarrow> element option) \<Rightarrow> seq_model \<Rightarrow> string option \<Rightarrow> node \<Rightarrow> error + node"
  and restore_list ::
    "(string \<Rightarrow> element option) \<Rightarrow> seq_model \<Rightarrow> string option \<Rightarrow> node list \<Rightarrow> error + node list"
  where
  "restore_node d sm pn (Node n i t cs) =
     bnd (restore_id d sm pn n i) (\<lambda>i'.
     bnd (restore_list d sm (Some n) cs) (\<lambda>cs'. Inr (Node n i' t cs')))"
| "restore_list d sm pn [] = Inr []"
| "restore_list d sm pn (c # cs) =
     bnd (restore_node d sm pn c) (\<lambda>c'.
     bnd (restore_list d sm pn cs) (\<lambda>cs'. Inr (c' # cs')))"

definition sync_part_tree_on_restore :: "element list \<Rightarrow> seq_model \<Rightarrow> node \<Rightarrow> error + node" where
  "sync_part_tree_on_restore ele_model sm rt = restore_node (ele_dict ele_model) sm None rt"

text \<open>\<open>PartTree.sync_to_restore\<close>: import the serialized tree, then resolve.\<close>

definition sync_to_restore :: "element list \<Rightarrow> seq_model \<Rightarrow> json \<Rightarrow> error + node" where
  "sync_to_restore ele_model sm root_node_compressed =
     sync_part_tree_on_restore ele_model sm (import_node root_node_compressed)"

text \<open>
  The body of the loop of \<open>sync_part_tree_on_update\<close> for one node: the name and
  the referent the node has afterwards.  Of the referents, the elements are the ones
  that have a \<open>label\<close> (\<open>hasattr(node.id, 'label')\<close>).
\<close>

definition update_attrs ::
  "(string \<Rightarrow> element option) \<Rightarrow> seq_model \<Rightarrow> string option \<Rightarrow> string \<Rightarrow> obj option
     \<Rightarrow> error + (string \<times> obj option)" where
  "update_attrs d sm pn nm i =
     (case nm of
        [] \<Rightarrow> Inl IndexError
      | c # rest \<Rightarrow>
          if c = CHR ''i'' then
            (case i of None \<Rightarrow> Inl AttributeError | Some ob \<Rightarrow>
               bnd (index_of (map IfcObj (ifcs sm)) ob) (\<lambda>idx. Inr (''i'' @ str_nat idx, i)))
          else if c = CHR ''g'' then
            (case i of None \<Rightarrow> Inl AttributeError | Some ob \<Rightarrow>
               bnd (index_of (map GapObj (gaps sm)) ob) (\<lambda>idx. Inr (''g'' @ str_nat idx, i)))
          else if c = CHR ''p'' then
            bnd (parent_element d pn) (\<lambda>e.
            bnd (if length nm > 1 then bnd (int_of_str rest) (\<lambda>k. Inr (k - 1)) else Inr 0) (\<lambda>idx.
            bnd (interface_list e) (\<lambda>il.
            bnd (getitem il idx) (\<lambda>s. Inr (nm, Some (profile s))))))
          else if take 2 nm = ''di'' then
            bnd (parent_element d pn) (\<lambda>e.
            bnd (ref_ifc e) (\<lambda>s.
            bnd (index_of (map IfcObj (ifcs sm)) (IfcObj s)) (\<lambda>idx.
              Inr (''di'' @ str_nat idx, Some (IfcObj s)))))
          else if take 2 nm = ''tl'' then
            bnd (parent_element d pn) (\<lambda>e.
            bnd (intrfc e) (\<lambda>s.
            bnd (index_of (map IfcObj (ifcs sm)) (IfcObj s)) (\<lambda>idx.
              Inr (''tl'' @ str_nat idx, Some (IfcObj s)))))
          else
            (case i of
               None \<Rightarrow> Inl AttributeError
             | Some (EleObj e) \<Rightarrow> Inr (label e, i)
             | Some _ \<Rightarrow> Inr (nm, i)))"

fun update_node ::
    "(string \<Rightarrow> element option) \<Rightarrow> seq_model \<Rightarrow> string option \<Rightarrow> node \<Rightarrow> error + node"
  and update_list ::
    "(string \<Rightarrow> element option) \<Rightarrow> seq_model \<Rightarrow> string option \<Rightarrow> node list \<Rightarrow> error + node list"
  where
  "update_node d sm pn (Node n i t cs) =
     bnd (update_attrs d sm pn n i) (\<lambda>(n', i').
     bnd (update_list d sm (Some n') cs) (\<lambda>cs'. Inr (Node n' i' t cs')))"
| "update_list d sm pn [] = Inr []"
| "update_list d sm pn (c # cs) =
     bnd (update_node d sm pn c) (\<lambda>c'.
     bnd (update_list d sm pn cs) (\<lambda>cs'. Inr (c' # cs')))"

definition sync_part_tree_on_update :: "element list \<Rightarrow> seq_model \<Rightarrow> node \<Rightarrow> error + node" where
  "sync_part_tree_on_update ele_model sm rt = update_node (ele_dict ele_model) sm None rt"

section \<open>Grouping engine\<close>

text \<open>
  Modelled from the spec: the label template of each element class
  (\<open>label_format\<close>) is not part of the source at hand.  The functions below take
  \<open>fmt\<close>, where \<open>fmt v n\<close> is the label \<open>label_format.format(n)\<close> of variant
  \<open>v\<close>.
\<close>

datatype variant = VElement | VCementedElement | VMirror | VThinElement | VDummyInterface | VAirGap

text \<open>
  Modelled from the spec: \<open>ele_model.add_element\<close> is not part of the source at
  hand; it registers the element, here by appending it to the list of elements.  The
  record holds the two objects the grouping engine changes: that list and the root node
  of the part tree.
\<close>

record opt_model =
  elements :: "element list"
  root_node :: node

definition is_air :: "gap \<Rightarrow> bool" where
  "is_air g = (lower (medium_name g) = ''air'')"

text \<open>Attach an element to the tree and register it in the element model.\<close>

definition emit :: "opt_model \<Rightarrow> element \<Rightarrow> string option \<Rightarrow> error + opt_model" where
  "emit om e tg =
     bnd (add_element_to_tree (root_node om) e tg) (\<lambda>rt.
       Inr \<lparr>elements = elements om @ [e], root_node = rt\<rparr>)"

text \<open>
  The choice made by the branch of \<open>process_airgap\<close> for a transmitting interface:
  \<open>None\<close> when \<open>add_dummy\<close> stays false, otherwise the label and the tag of the
  dummy interface.
\<close>

definition dummy_choice ::
  "(variant \<Rightarrow> nat \<Rightarrow> string) \<Rightarrow> seq_model \<Rightarrow> nat \<Rightarrow> error + (string \<times> string option) option" where
  "dummy_choice fmt sm i =
     (if i = 0 then Inr (Some (''Object'', Some ''#object''))
      else
        bnd (getitem (gaps sm) (int i - 1)) (\<lambda>gp.
          if is_air gp then
            (if stop_surface sm = Some (int i) then Inr (Some (''Stop'', Some ''#stop''))
             else Inr (Some (fmt VDummyInterface i, None)))
          else Inr None))"

text \<open>The \<open>if\<close>/\<open>elif\<close> chain of \<open>process_airgap\<close>, which emits the part for
  the interface; the air gap part follows it in every case.\<close>

definition airgap_surface ::
  "(variant \<Rightarrow> nat \<Rightarrow> string) \<Rightarrow> opt_model \<Rightarrow> seq_model \<Rightarrow> nat \<Rightarrow> interface \<Rightarrow> nat \<Rightarrow> bool
     \<Rightarrow> error + (opt_model \<times> nat)" where
  "airgap_surface fmt om sm i s num_ele add_ele =
     (if interact_mode s = ''reflect'' \<and> add_ele then
        bnd (getitem (z_dir sm) (int i)) (\<lambda>z.
        bnd (emit om \<lparr>label = fmt VMirror (num_ele + 1), part = Mirror s i z\<rparr> None) (\<lambda>om1.
          Inr (om1, num_ele + 1)))
      else if is_thinlens s \<and> add_ele then
        bnd (emit om \<lparr>label = fmt VThinElement (num_ele + 1), part = ThinElement s i\<rparr> None) (\<lambda>om1.
          Inr (om1, num_ele + 1))
      else if interact_mode s = ''transmit'' then
        bnd (dummy_choice fmt sm i) (\<lambda>choice.
          case choice of
            None \<Rightarrow> Inr (om, num_ele)
          | Some (dummy_label, dummy_tag) \<Rightarrow>
              bnd (emit om \<lparr>label = dummy_label, part = DummyInterface s i\<rparr> dummy_tag) (\<lambda>om1.
                Inr (om1, num_ele)))
      else Inr (om, num_ele))"

definition process_airgap ::
  "(variant \<Rightarrow> nat \<Rightarrow> string) \<Rightarrow> opt_model \<Rightarrow> seq_model \<Rightarrow> nat \<Rightarrow> gap \<Rightarrow> interface \<Rightarrow> nat \<Rightarrow> bool
     \<Rightarrow> error + (opt_model \<times> nat)" where
  "process_airgap fmt om sm i g s num_ele add_ele =
     bnd (airgap_surface fmt om sm i s num_ele add_ele) (\<lambda>(om1, num_ele1).
     bnd (emit om1 \<lparr>label = fmt VAirGap i, part = AirGap g i\<rparr> None) (\<lambda>om2.
       Inr (om2, num_ele1)))"

text \<open>\<open>x_node = part_tree.node(ob); x_node.parent = value\<close>\<close>

definition reparent :: "node \<Rightarrow> handle option \<Rightarrow> handle option \<Rightarrow> error + node" where
  "reparent rt x_node new =
     (case x_node of None \<Rightarrow> Inl AttributeError | Some h \<Rightarrow> set_parent rt h new)"

text \<open>\<open>find_by_attr(e_node, name='name', value=pid)\<close>, for the fragment \<open>e_node\<close>
  that was attached last.\<close>

definition find_in_e_node :: "node \<Rightarrow> string \<Rightarrow> error + handle option" where
  "find_in_e_node rt pid =
     (case subtree rt (last_child rt) of
        None \<Rightarrow> Inl AttributeError
      | Some e_node \<Rightarrow>
          bnd (find_by_attr_name e_node pid) (\<lambda>r. Inr (map_option ((@) (last_child rt)) r)))"

text \<open>The re-parenting after a lens with a buried reflector has been attached.\<close>

definition bury_lens :: "node \<Rightarrow> interface \<Rightarrow> gap \<Rightarrow> gap \<Rightarrow> error + node" where
  "bury_lens rt ifc2 g g1 =
     bnd (node rt (IfcObj ifc2)) (\<lambda>ifc_node.
     bnd (find_in_e_node rt ''p1'') (\<lambda>p_node.
     bnd (reparent rt ifc_node p_node) (\<lambda>rt1.
     bnd (node rt1 (GapObj g)) (\<lambda>g_node.
     bnd (reparent rt1 g_node (Some (last_child rt1))) (\<lambda>rt2.
     bnd (node rt2 (GapObj g1)) (\<lambda>g1_node.
       reparent rt2 g1_node (Some (last_child rt2))))))))"

text \<open>
  The loop \<open>for i, j in enumerate(range(-1, -num_eles-1, -1), start=1)\<close> after a
  cemented element with a buried reflector has been attached: \<open>todo\<close> counts the
  rounds that remain, \<open>i\<close> is the loop counter and \<open>j = -i\<close>.
\<close>

fun bury_cemented ::
  "nat \<Rightarrow> nat \<Rightarrow> (nat \<times> interface \<times> gap) list \<Rightarrow> node \<Rightarrow> error + node" where
  "bury_cemented 0 i eles rt = Inr rt"
| "bury_cemented (Suc todo) i eles rt =
     bnd (getitem eles (- int i)) (\<lambda>(_, ifc, _).
     bnd (node rt (IfcObj ifc)) (\<lambda>ifc_node.
     bnd (find_in_e_node rt (''p'' @ str_nat i)) (\<lambda>p_node.
     bnd (reparent rt ifc_node p_node) (\<lambda>rt1.
     bnd (getitem eles (- int i - 1)) (\<lambda>(_, _, g).
     bnd (node rt1 (GapObj g)) (\<lambda>g_node.
     bnd (case g_node of
            None \<Rightarrow> Inr rt1
          | Some h \<Rightarrow> set_parent rt1 h (Some (last_child rt1))) (\<lambda>rt2.
       bury_cemented todo (Suc i) eles rt2)))))))"

text \<open>The variables that live across the rounds of the loop of
  \<open>elements_from_sequence\<close>.\<close>

record loop_state =
  model :: opt_model
  num_elements :: nat
  buried_reflector :: bool
  eles :: "(nat \<times> interface \<times> gap) list"

text \<open>
  The branch of the loop for an air gap that closes a run of non-air gaps
  (\<open>len(eles) > 0\<close>).  With a buried reflector the count is halved, the current
  entry joins \<open>eles\<close> and \<open>i, ifc, g\<close> are taken from \<open>eles[1]\<close>.
  \<open>run_element\<close> is the \<open>if num_eles == 1\<close> / \<open>elif num_eles > 1\<close> part: it
  returns the model, the element count, and the \<open>i\<close> and \<open>g\<close> that the air gap
  part is built from afterwards.
\<close>

definition run_element ::
  "(variant \<Rightarrow> nat \<Rightarrow> string) \<Rightarrow> loop_state \<Rightarrow> nat \<Rightarrow> (nat \<times> interface \<times> gap) list
     \<Rightarrow> nat \<Rightarrow> interface \<Rightarrow> gap \<Rightarrow> error + (opt_model \<times> nat \<times> nat \<times> gap)" where
  "run_element fmt st num_eles eles1 i ifc g =
     (let br = buried_reflector st in
      if num_eles = 1 then
        bnd (getitem eles1 0) (\<lambda>(i1, s1, g1).
        let e = \<lparr>label = fmt VElement (num_elements st + 1), part = Element s1 ifc g1 i1 i\<rparr> in
        bnd (add_element_to_tree (root_node (model st)) e None) (\<lambda>rt.
        if br then
          bnd (getitem eles1 (- 1)) (\<lambda>(i', ifc2, g').
          bnd (bury_lens rt ifc2 g g1) (\<lambda>rt1.
            Inr (\<lparr>elements = elements (model st) @ [e], root_node = rt1\<rparr>,
                 num_elements st + 1, i', g')))
        else
          Inr (\<lparr>elements = elements (model st) @ [e], root_node = rt\<rparr>,
               num_elements st + 1, i, g)))
      else if num_eles > 1 then
        (let eles2 = (if \<not> br then eles1 @ [(i, ifc, g)] else eles1);
             e = \<lparr>label = fmt VCementedElement (num_elements st + 1),
                   part = CementedElement (take (num_eles + 1) eles2)\<rparr>
         in
         bnd (add_element_to_tree (root_node (model st)) e None) (\<lambda>rt.
         bnd (if br then bury_cemented num_eles 1 eles2 rt else Inr rt) (\<lambda>rt1.
         bnd (getitem eles2 (- 1)) (\<lambda>(i', ifc', g').
           Inr (\<lparr>elements = elements (model st) @ [e], root_node = rt1\<rparr>,
                num_elements st + 1, i', g')))))
      else Inr (model st, num_elements st, i, g))"

definition close_run ::
  "(variant \<Rightarrow> nat \<Rightarrow> string) \<Rightarrow> loop_state \<Rightarrow> nat \<Rightarrow> interface \<Rightarrow> gap \<Rightarrow> error + loop_state" where
  "close_run fmt st i0 ifc0 g0 =
     (let br = buried_reflector st;
          num_eles = (if br then length (eles st) div 2 else length (eles st));
          eles1 = (if br then eles st @ [(i0, ifc0, g0)] else eles st)
      in
      bnd (if br then getitem eles1 1 else Inr (i0, ifc0, g0)) (\<lambda>(i, ifc, g).
      bnd (run_element fmt st num_eles eles1 i ifc g) (\<lambda>(om1, num1, i2, g2).
      bnd (emit om1 \<lparr>label = fmt VAirGap i2, part = AirGap g2 i2\<rparr> None) (\<lambda>om2.
        Inr \<lparr>model = om2, num_elements = num1, buried_reflector = False, eles = []\<rparr>))))"

text \<open>One round of the loop over \<open>enumerate(path)\<close>.\<close>

definition group_step ::
  "(variant \<Rightarrow> nat \<Rightarrow> string) \<Rightarrow> seq_model \<Rightarrow> loop_state \<Rightarrow> nat \<Rightarrow> interface \<times> gap option
     \<Rightarrow> error + loop_state" where
  "group_step fmt sm st i seg =
     (case seg of
        (ifc, None) \<Rightarrow> Inr st
      | (ifc, Some g) \<Rightarrow>
          if is_air g then
            (if length (eles st) = 0 then
               (if i > 0 then
                  bnd (process_airgap fmt (model st) sm i g ifc (num_elements st) True) (\<lambda>(om1, n).
                    Inr (st\<lparr>model := om1, num_elements := n\<rparr>))
                else Inr st)
             else close_run fmt st i ifc g)
          else
            Inr (st\<lparr>buried_reflector := (if interact_mode ifc = ''reflect'' then True
                                          else buried_reflector st),
                   eles := eles st @ [(i, ifc, g)]\<rparr>))"

fun group_loop ::
  "(variant \<Rightarrow> nat \<Rightarrow> string) \<Rightarrow> seq_model \<Rightarrow> nat \<Rightarrow> (interface \<times> gap option) list \<Rightarrow> loop_state
     \<Rightarrow> error + loop_state" where
  "group_loop fmt sm i [] st = Inr st"
| "group_loop fmt sm i (seg # rest) st =
     bnd (group_step fmt sm st i seg) (\<lambda>st1. group_loop fmt sm (Suc i) rest st1)"

text \<open>
  Modelled from the spec: \<open>seq_model.path()\<close> is not part of the source at hand.  It
  yields one entry per interface, paired with the gap that follows it; the last
  interface has none.
\<close>

definition path :: "seq_model \<Rightarrow> (interface \<times> gap option) list" where
  "path sm =
     zip (ifcs sm)
       (map Some (gaps sm) @ replicate (length (ifcs sm) - length (gaps sm)) None)"

definition elements_from_sequence ::
  "(variant \<Rightarrow> nat \<Rightarrow> string) \<Rightarrow> opt_model \<Rightarrow> seq_model \<Rightarrow> error + opt_model" where
  "elements_from_sequence fmt om0 sm =
     bnd (if length (children (root_node om0)) = 0
          then init_from_sequence (root_node om0) sm
          else Inr (root_node om0)) (\<lambda>rt.
     bnd (group_loop fmt sm 0 (path sm)
            \<lparr>model = om0\<lparr>root_node := rt\<rparr>, num_elements = 0,
             buried_reflector = False, eles = []\<rparr>) (\<lambda>st. Inr (model st)))"

section \<open>Notions used in the statements\<close>

text \<open>The two nodes that \<open>init_from_sequence\<close> creates for position \<open>k\<close> of the
  sequence: one for the interface, one for the gap that follows it.\<close>

definition interior_nodes :: "seq_model \<Rightarrow> nat \<Rightarrow> node list" where
  "interior_nodes sm k =
     [Node (''i'' @ str_nat k) (Some (IfcObj (ifcs sm ! k))) ''#ifc'' [],
      Node (''g'' @ str_nat k) (Some (GapObj (gaps sm ! k))) ''#gap'' []]"

text \<open>
  The numbering of the labels that the grouping engine gives to the parts it emits,
  for a list of parts in the order of emission and the value \<open>n\<close> of the element
  counter before the first of them: a lens, a cemented element, a mirror and a thin
  element take the next value of the one counter; an air gap part holds the gap found
  at position \<open>i\<close> of the gaps of the sequence and is labelled with that \<open>i\<close>;
  a dummy interface holds the surface found at position \<open>i\<close> of the interfaces
  of the sequence, \<open>i\<close> not being 0, and is labelled \<open>Stop\<close> when \<open>i\<close>
  is the stop surface and with that \<open>i\<close> otherwise; both leave the counter as it is.
\<close>

definition counts :: "element \<Rightarrow> nat" where
  "counts e = (case part e of DummyInterface s i \<Rightarrow> 0 | AirGap g i \<Rightarrow> 0 | _ \<Rightarrow> 1)"

fun numbered :: "(variant \<Rightarrow> nat \<Rightarrow> string) \<Rightarrow> seq_model \<Rightarrow> nat \<Rightarrow> element list \<Rightarrow> bool" where
  "numbered fmt sm n [] = True"
| "numbered fmt sm n (e # es) =
     (case part e of
        Element s1 s2 g i1 i2 \<Rightarrow> label e = fmt VElement (n + 1) \<and> numbered fmt sm (n + 1) es
      | CementedElement il \<Rightarrow> label e = fmt VCementedElement (n + 1) \<and> numbered fmt sm (n + 1) es
      | Mirror s i z \<Rightarrow> label e = fmt VMirror (n + 1) \<and> numbered fmt sm (n + 1) es
      | ThinElement s i \<Rightarrow> label e = fmt VThinElement (n + 1) \<and> numbered fmt sm (n + 1) es
      | DummyInterface s i \<Rightarrow>
          0 < i \<and> i < length (ifcs sm) \<and> ifcs sm ! i = s
          \<and> label e = (if stop_surface sm = Some (int i) then ''Stop'' else fmt VDummyInterface i)
          \<and> numbered fmt sm n es
      | AirGap g i \<Rightarrow>
          i < length (gaps sm) \<and> gaps sm ! i = g
          \<and> label e = fmt VAirGap i \<and> numbered fmt sm n es)"

text \<open>
  The referents of a list of nodes, in order; a node without referent contributes
  nothing.  \<open>below n\<close> lists the \<open>id\<close> attributes of the nodes below \<open>n\<close>.
\<close>

fun somes :: "'a option list \<Rightarrow> 'a list" where
  "somes [] = []"
| "somes (None # xs) = somes xs"
| "somes (Some v # xs) = v # somes xs"

definition referents :: "node list \<Rightarrow> obj list" where
  "referents ns = somes (map node_id ns)"

definition below :: "node \<Rightarrow> obj option list" where
  "below n = map node_id (PreOrderIter_list (children n))"

text \<open>
  The gap before surface \<open>i\<close> exists and its medium is air; and: the root of the part
  tree has a child that references the part \<open>e\<close> and carries the tag \<open>t\<close>.
\<close>

definition preceding_gap_is_air :: "seq_model \<Rightarrow> nat \<Rightarrow> bool" where
  "preceding_gap_is_air sm i =
     (0 < i \<and> (case getitem (gaps sm) (int i - 1) of Inl e \<Rightarrow> False | Inr gp \<Rightarrow> is_air gp))"

definition part_tag :: "opt_model \<Rightarrow> element \<Rightarrow> string \<Rightarrow> bool" where
  "part_tag om e t = (\<exists>d \<in> set (children (root_node om)). node_id d = Some (EleObj e) \<and> tag d = t)"

text \<open>
  A label that \<open>sync_part_tree_on_update\<close> would not treat as the name of an element
  node: it is empty, or begins like the name of an interface, gap, profile, dummy or
  thin-lens node.
\<close>

definition schema_prefixed :: "string \<Rightarrow> bool" where
  "schema_prefixed l =
     (case l of
        [] \<Rightarrow> True
      | c # rest \<Rightarrow> c = CHR ''i'' \<or> c = CHR ''g'' \<or> c = CHR ''p''
                   \<or> take 2 l = ''di'' \<or> take 2 l = ''tl'')"

definition labels_ok :: "node list \<Rightarrow> bool" where
  "labels_ok ns = (\<forall>n \<in> set ns. \<forall>e. node_id n = Some (EleObj e) \<longrightarrow> \<not> schema_prefixed (label e))"

section \<open>Example inputs\<close>

text \<open>
  Label templates in the style \<open>'E{}'\<close>, \<open>'AG{}'\<close> for the examples, and the
  sequence object plane, air, surface 1, glass, surface 2, air, image plane.
\<close>

definition fmt_ex :: "variant \<Rightarrow> nat \<Rightarrow> string" where
  "fmt_ex v n =
     (case v of VElement \<Rightarrow> ''E'' | VCementedElement \<Rightarrow> ''CE'' | VMirror \<Rightarrow> ''M''
      | VThinElement \<Rightarrow> ''TL'' | VDummyInterface \<Rightarrow> ''D'' | VAirGap \<Rightarrow> ''AG'') @ str_nat n"

definition surf :: "nat \<Rightarrow> string \<Rightarrow> interface" where
  "surf k m = \<lparr>ifc_ref = k, interact_mode = m, is_thinlens = False\<rparr>"

definition air_gap :: "nat \<Rightarrow> gap" where
  "air_gap k = \<lparr>gap_ref = k, medium_name = ''air''\<rparr>"

definition glass_gap :: "nat \<Rightarrow> gap" where
  "glass_gap k = \<lparr>gap_ref = k, medium_name = ''N-BK7''\<rparr>"

definition empty_model :: opt_model where
  "empty_model = \<lparr>elements = [], root_node = init_root\<rparr>"

definition lens_seq :: seq_model where
  "lens_seq =
     \<lparr>ifcs = [surf 0 ''transmit'', surf 1 ''transmit'', surf 2 ''transmit'', surf 3 ''transmit''],
      gaps = [air_gap 0, glass_gap 1, air_gap 2],
      stop_surface = None,
      z_dir = [1, 1, 1, 1]\<rparr>"

text \<open>A tree with one air gap part.\<close>

definition airgap_ele :: element where
  "airgap_ele = \<lparr>label = ''AG2'', part = AirGap (air_gap 2) 2\<rparr>"


text \<open>The sequence object plane, air, stop surface, air, image plane, with the parts and
  the tree the grouping engine builds for it, and the tree a restore yields.\<close>

definition stop_seq :: seq_model where
  "stop_seq =
     \<lparr>ifcs = [surf 0 ''transmit'', surf 1 ''transmit'', surf 2 ''transmit''],
      gaps = [air_gap 0, air_gap 1],
      stop_surface = Some 1,
      z_dir = [1, 1, 1]\<rparr>"

definition stop_ele :: element where
  "stop_ele = \<lparr>label = ''Stop'', part = DummyInterface (surf 1 ''transmit'') 1\<rparr>"

definition ag1_ele :: element where
  "ag1_ele = \<lparr>label = ''AG1'', part = AirGap (air_gap 1) 1\<rparr>"

definition stop_tree :: node where
  "stop_tree =
     Node ''root'' (Some PartTreeObj) ''#group#root''
       [Node ''Stop'' (Some (EleObj stop_ele)) ''#dummyifc#stop''
          [Node ''di'' (Some (IfcObj (surf 1 ''transmit''))) ''#ifc'' []],
        Node ''AG1'' (Some (EleObj ag1_ele)) ''#airgap''
          [Node ''g1'' (Some (GapObj (air_gap 1))) ''#gap'' []]]"

definition stop_restored :: node where
  "stop_restored =
     Node ''root'' None ''#group#root''
       [Node ''Stop'' (Some (EleObj stop_ele)) ''#dummyifc#stop''
          [Node ''di'' None ''#ifc'' []],
        Node ''AG1'' (Some (EleObj ag1_ele)) ''#airgap''
          [Node ''g1'' (Some (GapObj (air_gap 1))) ''#gap'' []]]"

text \<open>The sequence object plane, air, stop surface, air, thin lens, air, image plane, with
  its parts, its tree after \<open>sync_part_tree_on_update\<close> and the tree a restore yields.\<close>

definition thin_surf :: interface where
  "thin_surf = \<lparr>ifc_ref = 2, interact_mode = ''transmit'', is_thinlens = True\<rparr>"

definition marker_seq :: seq_model where
  "marker_seq =
     \<lparr>ifcs = [surf 0 ''transmit'', surf 1 ''transmit'', thin_surf, surf 3 ''transmit''],
      gaps = [air_gap 0, air_gap 1, air_gap 2],
      stop_surface = Some 1,
      z_dir = [1, 1, 1, 1]\<rparr>"

definition thin_ele :: element where
  "thin_ele = \<lparr>label = ''TL1'', part = ThinElement thin_surf 2\<rparr>"

definition marker_elements :: "element list" where
  "marker_elements = [stop_ele, ag1_ele, thin_ele, airgap_ele]"

definition marker_tree :: node where
  "marker_tree =
     Node ''root'' (Some PartTreeObj) ''#group#root''
       [Node ''Stop'' (Some (EleObj stop_ele)) ''#dummyifc#stop''
          [Node ''di1'' (Some (IfcObj (surf 1 ''transmit''))) ''#ifc'' []],
        Node ''AG1'' (Some (EleObj ag1_ele)) ''#airgap''
          [Node ''g1'' (Some (GapObj (air_gap 1))) ''#gap'' []],
        Node ''TL1'' (Some (EleObj thin_ele)) ''#element#thinlens''
          [Node ''tl2'' (Some (IfcObj thin_surf)) ''#ifc'' []],
        Node ''AG2'' (Some (EleObj airgap_ele)) ''#airgap''
          [Node ''g2'' (Some (GapObj (air_gap 2))) ''#gap'' []]]"

definition marker_restored :: node where
  "marker_restored =
     Node ''root'' None ''#group#root''
       [Node ''Stop'' (Some (EleObj stop_ele)) ''#dummyifc#stop''
          [Node ''di1'' None ''#ifc'' []],
        Node ''AG1'' (Some (EleObj ag1_ele)) ''#airgap''
          [Node ''g1'' (Some (GapObj (air_gap 1))) ''#gap'' []],
        Node ''TL1'' (Some (EleObj thin_ele)) ''#element#thinlens''
          [Node ''tl2'' None ''#ifc'' []],
        Node ''AG2'' (Some (EleObj airgap_ele)) ''#airgap''
          [Node ''g2'' (Some (GapObj (air_gap 2))) ''#gap'' []]]"

text \<open>The sequence object plane, air, surface 1, glass, surface 2, air, plain surface 3,
  air, mirror 4, air, image plane, and the parts the grouping engine emits for it.\<close>

definition mixed_seq :: seq_model where
  "mixed_seq =
     \<lparr>ifcs = [surf 0 ''transmit'', surf 1 ''transmit'', surf 2 ''transmit'',
              surf 3 ''transmit'', surf 4 ''reflect'', surf 5 ''transmit''],
      gaps = [air_gap 0, glass_gap 1, air_gap 2, air_gap 3, air_gap 4],
      stop_surface = None,
      z_dir = [1, 1, 1, 1, 1, -1]\<rparr>"

definition mixed_parts :: "element list" where
  "mixed_parts =
     [\<lparr>label = ''E1'', part = Element (surf 1 ''transmit'') (surf 2 ''transmit'') (glass_gap 1) 1 2\<rparr>,
      \<lparr>label = ''AG2'', part = AirGap (air_gap 2) 2\<rparr>,
      \<lparr>label = ''D3'', part = DummyInterface (surf 3 ''transmit'') 3\<rparr>,
      \<lparr>label = ''AG3'', part = AirGap (air_gap 3) 3\<rparr>,
      \<lparr>label = ''M2'', part = Mirror (surf 4 ''reflect'') 4 1\<rparr>,
      \<lparr>label = ''AG4'', part = AirGap (air_gap 4) 4\<rparr>]"

text \<open>
  A mirror, the tree after the mirror has been attached twice (as when the sequence is
  grouped again over a tree that is not empty), and the tree after a third time.
\<close>

definition mirror_ele :: element where
  "mirror_ele = \<lparr>label = ''M1'', part = Mirror (surf 4 ''reflect'') 4 1\<rparr>"

definition regroup_tree :: node where
  "regroup_tree =
     Node ''root'' (Some PartTreeObj) ''#group#root''
       [Node ''M1'' (Some (EleObj mirror_ele)) ''#element#mirror''
          [Node ''p1'' (Some (ProfileObj (surf 4 ''reflect''))) ''#profile'' []],
        Node ''M1'' (Some (EleObj mirror_ele)) ''#element#mirror''
          [Node ''p1'' (Some (ProfileObj (surf 4 ''reflect''))) ''#profile''
             [Node ''i4'' (Some (IfcObj (surf 4 ''reflect''))) ''#ifc'' []]]]"

definition regroup_result :: node where
  "regroup_result =
     Node ''root'' (Some PartTreeObj) ''#group#root''
       [Node ''M1'' (Some (EleObj mirror_ele)) ''#element#mirror''
          [Node ''p1'' (Some (ProfileObj (surf 4 ''reflect''))) ''#profile'' []],
        Node ''M1'' (Some (EleObj mirror_ele)) ''#element#mirror''
          [Node ''p1'' (Some (ProfileObj (surf 4 ''reflect''))) ''#profile'' []],
        Node ''M1'' (Some (EleObj mirror_ele)) ''#element#mirror''
          [Node ''p1'' (Some (ProfileObj (surf 4 ''reflect''))) ''#profile''
             [Node ''i4'' (Some (IfcObj (surf 4 ''reflect''))) ''#ifc'' []]]]"

text \<open>The tree of the lens sequence as \<open>init_from_sequence\<close> leaves it, the fragment of
  its lens, and the tree after the fragment has been attached.\<close>

definition lens_ele :: element where
  "lens_ele = \<lparr>label = ''E1'',
                part = Element (surf 1 ''transmit'') (surf 2 ''transmit'') (glass_gap 1) 1 2\<rparr>"

definition lens_init_tree :: node where
  "lens_init_tree =
     Node ''root'' (Some PartTreeObj) ''#group#root''
       [Node ''i1'' (Some (IfcObj (surf 1 ''transmit''))) ''#ifc'' [],
        Node ''g1'' (Some (GapObj (glass_gap 1))) ''#gap'' [],
        Node ''i2'' (Some (IfcObj (surf 2 ''transmit''))) ''#ifc'' [],
        Node ''g2'' (Some (GapObj (air_gap 2))) ''#gap'' []]"

definition lens_fragment :: node where
  "lens_fragment =
     Node ''E1'' (Some (EleObj lens_ele)) ''#element#lens''
       [Node ''p1'' (Some (ProfileObj (surf 1 ''transmit''))) ''#profile''
          [Node ''i1'' (Some (IfcObj (surf 1 ''transmit''))) ''#ifc'' []],
        Node ''g1'' (Some (GapObj (glass_gap 1))) ''#gap'' [],
        Node ''p2'' (Some (ProfileObj (surf 2 ''transmit''))) ''#profile''
          [Node ''i2'' (Some (IfcObj (surf 2 ''transmit''))) ''#ifc'' []]]"

definition lens_attached_tree :: node where
  "lens_attached_tree =
     Node ''root'' (Some PartTreeObj) ''#group#root''
       [Node ''g2'' (Some (GapObj (air_gap 2))) ''#gap'' [], lens_fragment]"

text \<open>The parts and the tree for the object plane of the lens sequence, as
  \<open>process_airgap\<close> builds them when it is called for surface 0.\<close>

definition object_ele :: element where
  "object_ele = \<lparr>label = ''Object'', part = DummyInterface (surf 0 ''transmit'') 0\<rparr>"

definition ag0_ele :: element where
  "ag0_ele = \<lparr>label = ''AG0'', part = AirGap (air_gap 0) 0\<rparr>"

definition object_tree :: node where
  "object_tree =
     Node ''root'' (Some PartTreeObj) ''#group#root''
       [Node ''Object'' (Some (EleObj object_ele)) ''#dummyifc#object''
          [Node ''di'' (Some (IfcObj (surf 0 ''transmit''))) ''#ifc'' []],
        Node ''AG0'' (Some (EleObj ag0_ele)) ''#airgap''
          [Node ''g0'' (Some (GapObj (air_gap 0))) ''#gap'' []]]"

text \<open>The tree of the stop sequence after \<open>sync_part_tree_on_update\<close>; the same tree
  with the dummy interface relabelled \<open>iris\<close>; and a tree in which the node of an air
  gap part relabelled \<open>diaphragm\<close> hangs below the node of the dummy interface.\<close>

definition stop_synced :: node where
  "stop_synced =
     Node ''root'' (Some PartTreeObj) ''#group#root''
       [Node ''Stop'' (Some (EleObj stop_ele)) ''#dummyifc#stop''
          [Node ''di1'' (Some (IfcObj (surf 1 ''transmit''))) ''#ifc'' []],
        Node ''AG1'' (Some (EleObj ag1_ele)) ''#airgap''
          [Node ''g1'' (Some (GapObj (air_gap 1))) ''#gap'' []]]"

definition iris_ele :: element where
  "iris_ele = \<lparr>label = ''iris'', part = DummyInterface (surf 1 ''transmit'') 1\<rparr>"

definition iris_tree :: node where
  "iris_tree =
     Node ''root'' (Some PartTreeObj) ''#group#root''
       [Node ''Stop'' (Some (EleObj iris_ele)) ''#dummyifc#stop''
          [Node ''di'' (Some (IfcObj (surf 1 ''transmit''))) ''#ifc'' []],
        Node ''AG1'' (Some (EleObj ag1_ele)) ''#airgap''
          [Node ''g1'' (Some (GapObj (air_gap 1))) ''#gap'' []]]"

definition dia_ele :: element where
  "dia_ele = \<lparr>label = ''diaphragm'', part = AirGap (air_gap 1) 1\<rparr>"

definition nested_tree :: node where
  "nested_tree =
     Node ''root'' (Some PartTreeObj) ''#group#root''
       [Node ''Stop'' (Some (EleObj stop_ele)) ''#dummyifc#stop''
          [Node ''AG1'' (Some (EleObj dia_ele)) ''#airgap''
             [Node ''g1'' (Some (GapObj (air_gap 1))) ''#gap'' []]]]"

section \<open>Lookup\<close>

lemma findall_length:
  "length (findall P n) = length (filter P (PreOrderIter n))"
  "length (findall_from P k cs) = length (filter P (PreOrderIter_list cs))"
  by (induction P n and P k cs rule: findall_findall_from.induct) auto





section \<open>Initialising the tree from the sequence\<close>

lemma getitem_nat: "k < length xs \<Longrightarrow> getitem xs (int k) = Inr (xs ! k)"
  by (simp add: getitem_def)

lemma init_loop_children:
  "ss \<noteq> [] \<longrightarrow> i + length ss \<le> length (gaps sm) \<Longrightarrow>
   init_loop i ss sm (Node n r t cs) =
     Inr (Node n r t (cs @ concat (map (\<lambda>(k, s).
            [Node (''i'' @ str_nat k) (Some (IfcObj s)) ''#ifc'' [],
             Node (''g'' @ str_nat k) (Some (GapObj (gaps sm ! k))) ''#gap'' []])
          (zip [i..<i + length ss] ss))))"
proof (induction ss arbitrary: i cs)
  case Nil
  then show ?case by simp
next
  case (Cons s ss)
  have g: "getitem (gaps sm) (int i) = Inr (gaps sm ! i)"
    using Cons.prems by (intro getitem_nat) simp
  have r: "[i..<i + length (s # ss)] = i # [Suc i..<Suc i + length ss]"
    by (subst upt_rec) simp
  have "ss \<noteq> [] \<longrightarrow> Suc i + length ss \<le> length (gaps sm)" using Cons.prems by simp
  from Cons.IH[OF this] show ?case
    unfolding r by (simp add: g bnd_def)
qed

lemma length_interior: "length (butlast (tl xs)) = length xs - 2"
  by (simp add: numeral_2_eq_2)

lemma zip_interior:
  "zip [1..<1 + length (butlast (tl xs))] (butlast (tl xs)) = map (\<lambda>k. (k, xs ! k)) [1..<length xs - 1]"
proof (rule nth_equalityI)
  show "length (zip [1..<1 + length (butlast (tl xs))] (butlast (tl xs))) = length (map (\<lambda>k. (k, xs ! k)) [1..<length xs - 1])"
    unfolding length_zip length_map length_upt length_interior by arith
next
  fix j assume "j < length (zip [1..<1 + length (butlast (tl xs))] (butlast (tl xs)))"
  then have j: "j < length xs - 2"
    unfolding length_zip length_upt length_interior by arith
  then have e: "butlast (tl xs) ! j = xs ! (Suc j)"
    by (simp add: nth_butlast nth_tl length_interior)
  have j1: "j < length [1..<1 + length (butlast (tl xs))]" "j < length (butlast (tl xs))"
    using j unfolding length_upt length_interior by arith+
  have j2: "j < length [1..<length xs - 1]" using j unfolding length_upt by arith
  have "zip [1..<1 + length (butlast (tl xs))] (butlast (tl xs)) ! j = ([1..<1 + length (butlast (tl xs))] ! j, butlast (tl xs) ! j)"
    using j1 by (intro nth_zip)
  also have "[1..<1 + length (butlast (tl xs))] ! j = 1 + j"
    using j1(1) unfolding length_upt by (intro nth_upt) arith
  also have "map (\<lambda>k. (k, xs ! k)) [1..<length xs - 1] ! j = (1 + j, xs ! (1 + j))"
  proof -
    have "[1..<length xs - 1] ! j = 1 + j" using j2 unfolding length_upt by (intro nth_upt) arith
    then show ?thesis using j2 by (simp del: upt_Suc)
  qed
  ultimately show "zip [1..<1 + length (butlast (tl xs))] (butlast (tl xs)) ! j = map (\<lambda>k. (k, xs ! k)) [1..<length xs - 1] ! j"
    using e by simp
qed

text \<open>
  C5 (as amended).  On a root without children, over a sequence that has a gap after
  every interface but the last, \<open>init_from_sequence\<close> succeeds and creates, directly
  under the root and in sequence order, the nodes \<open>i<k>\<close> and \<open>g<k>\<close> for the
  interior positions \<open>k = 1, \<dots>, n - 2\<close> only: the first and the last interface
  and the gap after the first interface get no node.
\<close>

theorem init_from_sequence_children:
  assumes "length (ifcs sm) \<le> Suc (length (gaps sm))"
  shows "init_from_sequence (Node n r t []) sm =
           Inr (Node n r t (concat (map (interior_nodes sm) [1..<length (ifcs sm) - 1])))"
proof -
  have le: "butlast (tl (ifcs sm)) \<noteq> [] \<longrightarrow> 1 + length (butlast (tl (ifcs sm))) \<le> length (gaps sm)"
  proof
    assume "butlast (tl (ifcs sm)) \<noteq> []"
    then have "length (butlast (tl (ifcs sm))) \<noteq> 0" by (simp only: length_0_conv not_False_eq_True)
    then show "1 + length (butlast (tl (ifcs sm))) \<le> length (gaps sm)"
      using assms unfolding length_interior by arith
  qed
  have "init_from_sequence (Node n r t []) sm =
      Inr (Node n r t ([] @ concat (map (\<lambda>(k, s).
            [Node (''i'' @ str_nat k) (Some (IfcObj s)) ''#ifc'' [],
             Node (''g'' @ str_nat k) (Some (GapObj (gaps sm ! k))) ''#gap'' []])
          (zip [1..<1 + length (butlast (tl (ifcs sm)))] (butlast (tl (ifcs sm)))))))"
    unfolding init_from_sequence_def by (rule init_loop_children[OF le])
  also have "\<dots> = Inr (Node n r t (concat (map (interior_nodes sm) [1..<length (ifcs sm) - 1])))"
  proof -
    have "interior_nodes sm = (\<lambda>k. [Node (''i'' @ str_nat k) (Some (IfcObj (ifcs sm ! k))) ''#ifc'' [],
             Node (''g'' @ str_nat k) (Some (GapObj (gaps sm ! k))) ''#gap'' []])"
      by (rule ext) (simp add: interior_nodes_def)
    then show ?thesis unfolding zip_interior by (simp add: comp_def del: upt_Suc)
  qed
  finally show ?thesis .
qed

text \<open>The lens sequence has four interfaces and three gaps; positions 1 and 2 get nodes.\<close>

theorem init_from_sequence_children_witness:
  "init_from_sequence init_root lens_seq =
     Inr (Node ''root'' (Some PartTreeObj) ''#group#root''
            (interior_nodes lens_seq 1 @ interior_nodes lens_seq 2))"
proof -
  have h: "length (ifcs lens_seq) \<le> Suc (length (gaps lens_seq))" by code_simp
  have u: "[1..<length (ifcs lens_seq) - 1] = [1, 2]" by code_simp
  show ?thesis
    using init_from_sequence_children[OF h, of "''root''" "Some PartTreeObj" "''#group#root''"]
    unfolding u by (simp add: init_root_def)
qed

text \<open>
  C5 as stated fails: the lens sequence has four surfaces and three gaps, and the tree
  gets four children, none for surface 0, gap 0 or surface 3.
\<close>

theorem init_from_sequence_skips_ends:
  "init_from_sequence init_root lens_seq =
     Inr (Node ''root'' (Some PartTreeObj) ''#group#root''
           [Node ''i1'' (Some (IfcObj (surf 1 ''transmit''))) ''#ifc'' [],
            Node ''g1'' (Some (GapObj (glass_gap 1))) ''#gap'' [],
            Node ''i2'' (Some (IfcObj (surf 2 ''transmit''))) ''#ifc'' [],
            Node ''g2'' (Some (GapObj (air_gap 2))) ''#gap'' []])
   \<and> length (ifcs lens_seq) = 4 \<and> length (gaps lens_seq) = 3"
  by code_simp

section \<open>Restoring a serialized tree\<close>

text \<open>
  A name that is no element label and begins with \<open>d\<close> or \<open>t\<close> reaches the last
  two tests of \<open>sync_part_tree_on_restore\<close>, which compare one character with two:
  the node keeps whatever referent it had, and after an import it has none.
\<close>

lemma restore_id_di_tl_unassigned:
  assumes "d nm = None" and "take 2 nm = ''di'' \<or> take 2 nm = ''tl''"
  shows "restore_id d sm pn nm old = Inr old"
proof -
  from assms(2) obtain c rest where nm: "nm = c # rest" and c: "c = CHR ''d'' \<or> c = CHR ''t''"
    by (cases nm) auto
  have "take 1 nm \<noteq> ''di''" "take 1 nm \<noteq> ''tl''" using nm by auto
  then show ?thesis using assms(1) nm c by (auto simp: restore_id_def)
qed

text \<open>
  C3 fails on the code.  The tree of the sequence with a stop surface and a thin lens,
  with the names \<open>sync_part_tree_on_update\<close> gives its nodes, has a node \<open>di1\<close>
  below the dummy interface \<open>Stop\<close> and a node \<open>tl2\<close> below the thin element
  \<open>TL1\<close>; they reference the \<open>ref_ifc\<close> and the \<open>intrfc\<close> of their parents.
  After serializing and restoring, both nodes are without a referent.
\<close>

theorem restore_leaves_di_tl_unresolved:
  "bnd (elements_from_sequence fmt_ex empty_model marker_seq)
       (\<lambda>om. bnd (sync_part_tree_on_update (elements om) marker_seq (root_node om))
          (\<lambda>rt. Inr (elements om, rt))) = Inr (marker_elements, marker_tree)
   \<and> sync_part_tree_on_restore marker_elements marker_seq (import_node (export_node marker_tree))
       = Inr marker_restored
   \<and> ref_ifc stop_ele = Inr (surf 1 ''transmit'')
   \<and> subtree marker_tree [0, 0] = Some (Node ''di1'' (Some (IfcObj (surf 1 ''transmit''))) ''#ifc'' [])
   \<and> subtree marker_restored [0, 0] = Some (Node ''di1'' None ''#ifc'' [])
   \<and> intrfc thin_ele = Inr thin_surf
   \<and> subtree marker_tree [2, 0] = Some (Node ''tl2'' (Some (IfcObj thin_surf)) ''#ifc'' [])
   \<and> subtree marker_restored [2, 0] = Some (Node ''tl2'' None ''#ifc'' [])"
  by code_simp

text \<open>
  C2 fails on the code.  The grouping engine builds \<open>stop_tree\<close> for the sequence with
  a stop surface.  Serializing it and restoring it over the same sequence and elements
  yields a tree with the same names, tags and shape, in which the node \<open>di\<close> of the
  dummy interface has lost its referent, the stop surface; the root, whose name matches
  no test of the restore, is without its referent as well.
\<close>

theorem round_trip_loses_referent:
  "elements_from_sequence fmt_ex empty_model stop_seq
       = Inr \<lparr>elements = [stop_ele, ag1_ele], root_node = stop_tree\<rparr>
   \<and> sync_to_restore [stop_ele, ag1_ele] stop_seq (export_node stop_tree) = Inr stop_restored
   \<and> export_node stop_restored = export_node stop_tree
   \<and> subtree stop_tree [0, 0] = Some (Node ''di'' (Some (IfcObj (surf 1 ''transmit''))) ''#ifc'' [])
   \<and> subtree stop_restored [0, 0] = Some (Node ''di'' None ''#ifc'' [])
   \<and> node_id stop_tree = Some PartTreeObj
   \<and> node_id stop_restored = None"
  by code_simp

section \<open>Grouping\<close>

lemma bnd_Inr: "bnd m f = Inr y \<longleftrightarrow> (\<exists>v. m = Inr v \<and> f v = Inr y)"
  by (cases m) (simp_all add: bnd_def)

lemma str_nat_1: "str_nat 1 = ''1''" by code_simp
lemma str_nat_2: "str_nat 2 = ''2''" by code_simp
lemma str_nat_S0: "str_nat (Suc 0) = ''1''" using str_nat_1 by simp
lemma str_nat_SS0: "str_nat (Suc (Suc 0)) = ''2''" using str_nat_2 by (simp add: numeral_2_eq_2)

text \<open>
  C1 (as amended).  For a sequence object plane, air, surface A, a non-air gap,
  surface B, air, image plane, with A not reflecting and A, B two different interfaces,
  one run of \<open>elements_from_sequence\<close> on an empty model emits exactly two parts:
  the lens spanning A and B with the gap between them, labelled with counter value 1,
  and the air gap part for the gap after B.  No dummy interface is emitted, and the air
  gap after the object plane gets no part: the loop skips the first surface, and the
  image plane has no gap after it.
\<close>

theorem lens_grouping:
  assumes "is_air g0" and "\<not> is_air g1" and "is_air g2"
    and "interact_mode A \<noteq> ''reflect''" and "A \<noteq> B"
  shows "elements_from_sequence fmt empty_model
           \<lparr>ifcs = [s0, A, B, s3], gaps = [g0, g1, g2], stop_surface = st, z_dir = zd\<rparr>
         = Inr \<lparr>elements =
                  [\<lparr>label = fmt VElement 1, part = Element A B g1 1 2\<rparr>,
                   \<lparr>label = fmt VAirGap 2, part = AirGap g2 2\<rparr>],
                root_node =
                  Node ''root'' (Some PartTreeObj) ''#group#root''
                    [Node (fmt VElement 1)
                       (Some (EleObj \<lparr>label = fmt VElement 1, part = Element A B g1 1 2\<rparr>))
                       ''#element#lens''
                       [Node ''p1'' (Some (ProfileObj A)) ''#profile''
                          [Node ''i1'' (Some (IfcObj A)) ''#ifc'' []],
                        Node ''g1'' (Some (GapObj g1)) ''#gap'' [],
                        Node ''p2'' (Some (ProfileObj B)) ''#profile''
                          [Node ''i2'' (Some (IfcObj B)) ''#ifc'' []]],
                     Node (fmt VAirGap 2)
                       (Some (EleObj \<lparr>label = fmt VAirGap 2, part = AirGap g2 2\<rparr>))
                       ''#airgap''
                       [Node ''g2'' (Some (GapObj g2)) ''#gap'' []]]\<rparr>"
proof -
  have g12: "g1 \<noteq> g2" using assms(2,3) by auto
  show ?thesis
    using assms g12
    by (simp add: elements_from_sequence_def init_from_sequence_def path_def group_step_def
        close_run_def run_element_def emit_def add_element_to_tree_def attach_fragment_def tree_def leaves_def
        node_def find_by_attr_id_def find_one_def bnd_def getitem_def set_name_def
        profile_node_def ifc_node_def gap_node_def tag_suffix_def profile_def init_root_def
        empty_model_def Let_def str_nat_1 str_nat_2 str_nat_S0 str_nat_SS0 numeral_2_eq_2)
qed

theorem lens_grouping_witness:
  "elements_from_sequence fmt_ex empty_model lens_seq
     = Inr \<lparr>elements =
              [\<lparr>label = ''E1'', part = Element (surf 1 ''transmit'') (surf 2 ''transmit'') (glass_gap 1) 1 2\<rparr>,
               \<lparr>label = ''AG2'', part = AirGap (air_gap 2) 2\<rparr>],
            root_node =
              Node ''root'' (Some PartTreeObj) ''#group#root''
                [Node ''E1''
                   (Some (EleObj \<lparr>label = ''E1'', part = Element (surf 1 ''transmit'') (surf 2 ''transmit'') (glass_gap 1) 1 2\<rparr>))
                   ''#element#lens''
                   [Node ''p1'' (Some (ProfileObj (surf 1 ''transmit''))) ''#profile''
                      [Node ''i1'' (Some (IfcObj (surf 1 ''transmit''))) ''#ifc'' []],
                    Node ''g1'' (Some (GapObj (glass_gap 1))) ''#gap'' [],
                    Node ''p2'' (Some (ProfileObj (surf 2 ''transmit''))) ''#profile''
                      [Node ''i2'' (Some (IfcObj (surf 2 ''transmit''))) ''#ifc'' []]],
                 Node ''AG2''
                   (Some (EleObj \<lparr>label = ''AG2'', part = AirGap (air_gap 2) 2\<rparr>))
                   ''#airgap''
                   [Node ''g2'' (Some (GapObj (air_gap 2))) ''#gap'' []]]\<rparr>"
proof -
  have a: "is_air (air_gap 0)" "\<not> is_air (glass_gap 1)" "is_air (air_gap 2)" by code_simp+
  have b: "interact_mode (surf 1 ''transmit'') \<noteq> ''reflect''" "surf 1 ''transmit'' \<noteq> surf 2 ''transmit''"
    by code_simp+
  have f: "fmt_ex VElement 1 = ''E1''" "fmt_ex VAirGap 2 = ''AG2''" by code_simp+
  show ?thesis
    using lens_grouping[OF a b, of fmt_ex "surf 0 ''transmit''" "surf 3 ''transmit''" None "[1, 1, 1, 1]"]
    unfolding f lens_seq_def by simp
qed

text \<open>
  C1 as stated fails: on the lens sequence the run emits the lens and one air gap part;
  there is no second air gap part and no dummy interface.
\<close>

theorem lens_grouping_no_dummies:
  "bnd (elements_from_sequence fmt_ex empty_model lens_seq) (\<lambda>om. Inr (map part (elements om)))
     = Inr [Element (surf 1 ''transmit'') (surf 2 ''transmit'') (glass_gap 1) 1 2,
            AirGap (air_gap 2) 2]"
  by code_simp

section \<open>Labels of the emitted parts\<close>

lemma numbered_append:
  "numbered fmt sm n (xs @ ys) \<longleftrightarrow> numbered fmt sm n xs \<and> numbered fmt sm (n + sum_list (map counts xs)) ys"
  by (induction xs arbitrary: n) (auto simp: counts_def split: part.splits)

lemma emit_elements: "emit om e tg = Inr om' \<Longrightarrow> elements om' = elements om @ [e]"
  by (cases "add_element_to_tree (root_node om) e tg") (auto simp: emit_def bnd_def)

lemma dummy_choice_label:
  "dummy_choice fmt sm i = Inr (Some (lb, tg)) \<Longrightarrow> 0 < i \<Longrightarrow>
     lb = (if stop_surface sm = Some (int i) then ''Stop'' else fmt VDummyInterface i)"
  by (auto simp: dummy_choice_def bnd_Inr split: if_splits)

lemma airgap_surface_numbered:
  assumes "airgap_surface fmt om sm i s n True = Inr (om1, n1)" and "0 < i"
    and "i < length (ifcs sm)" and "ifcs sm ! i = s"
  shows "\<exists>new. elements om1 = elements om @ new \<and> numbered fmt sm n new
               \<and> n1 = n + sum_list (map counts new)"
proof (cases "interact_mode s = ''reflect''")
  case True
  with assms(1) obtain z where "emit om \<lparr>label = fmt VMirror (n + 1), part = Mirror s i z\<rparr> None = Inr om1" "n1 = n + 1"
    by (auto simp: airgap_surface_def bnd_Inr)
  then show ?thesis using emit_elements by (force simp: counts_def)
next
  case nr: False
  show ?thesis
  proof (cases "is_thinlens s")
    case True
    with assms(1) nr have "emit om \<lparr>label = fmt VThinElement (n + 1), part = ThinElement s i\<rparr> None = Inr om1" "n1 = n + 1"
      by (auto simp: airgap_surface_def bnd_Inr)
    then show ?thesis using emit_elements by (force simp: counts_def)
  next
    case nt: False
    show ?thesis
    proof (cases "interact_mode s = ''transmit''")
      case True
      with assms(1) nr nt obtain choice where ch: "dummy_choice fmt sm i = Inr choice"
        and rest: "(case choice of
            None \<Rightarrow> Inr (om, n)
          | Some (dummy_label, dummy_tag) \<Rightarrow>
              bnd (emit om \<lparr>label = dummy_label, part = DummyInterface s i\<rparr> dummy_tag) (\<lambda>om1.
                Inr (om1, n))) = Inr (om1, n1)"
        by (auto simp: airgap_surface_def bnd_Inr)
      show ?thesis
      proof (cases choice)
        case None
        with rest show ?thesis by auto
      next
        case (Some lt)
        obtain lb tg where lt: "lt = (lb, tg)" by (cases lt)
        with Some rest have e: "emit om \<lparr>label = lb, part = DummyInterface s i\<rparr> tg = Inr om1" and "n1 = n"
          by (auto simp: bnd_Inr)
        from dummy_choice_label[of fmt sm i lb tg] ch Some lt assms(2)
        have "lb = (if stop_surface sm = Some (int i) then ''Stop'' else fmt VDummyInterface i)"
          by simp
        with e \<open>n1 = n\<close> assms(2,3,4) show ?thesis using emit_elements by (force simp: counts_def)
      qed
    next
      case False
      with assms(1) nr nt show ?thesis by (auto simp: airgap_surface_def)
    qed
  qed
qed

lemma process_airgap_numbered:
  assumes "process_airgap fmt om sm i g s n True = Inr (om', n')" and "0 < i"
    and "i < length (ifcs sm)" and "ifcs sm ! i = s"
    and "i < length (gaps sm)" and "gaps sm ! i = g"
  shows "\<exists>new. elements om' = elements om @ new \<and> numbered fmt sm n new
               \<and> n' = n + sum_list (map counts new)"
proof -
  from assms(1) obtain om1 n1 where
    first: "airgap_surface fmt om sm i s n True = Inr (om1, n1)"
    and second: "emit om1 \<lparr>label = fmt VAirGap i, part = AirGap g i\<rparr> None = Inr om'"
    and n': "n' = n1"
    by (auto simp: process_airgap_def bnd_Inr)
  from airgap_surface_numbered[OF first assms(2,3,4)]
  obtain new1 where n1: "elements om1 = elements om @ new1" "numbered fmt sm n new1"
    "n1 = n + sum_list (map counts new1)" by blast
  from emit_elements[OF second] n1 n'
  have "elements om' = elements om @ (new1 @ [\<lparr>label = fmt VAirGap i, part = AirGap g i\<rparr>])"
    by simp
  moreover have "numbered fmt sm n (new1 @ [\<lparr>label = fmt VAirGap i, part = AirGap g i\<rparr>])"
    using n1 assms(5,6) by (simp add: numbered_append)
  moreover have "n' = n + sum_list (map counts (new1 @ [\<lparr>label = fmt VAirGap i, part = AirGap g i\<rparr>]))"
    using n1 n' by (simp add: counts_def)
  ultimately show ?thesis by blast
qed

lemma run_element_numbered:
  assumes "run_element fmt st num_eles eles1 i ifc g = Inr (om1, num1, i2, g2)"
  shows "\<exists>new. elements om1 = elements (model st) @ new \<and> numbered fmt sm (num_elements st) new
               \<and> num1 = num_elements st + sum_list (map counts new)"
proof (cases "num_eles = 1")
  case True
  have "\<exists>s1 g1 i1 i'. elements om1 = elements (model st) @
           [\<lparr>label = fmt VElement (num_elements st + 1), part = Element s1 ifc g1 i1 i'\<rparr>]
         \<and> num1 = num_elements st + 1"
    using assms True
    by (fastforce simp: run_element_def bnd_Inr Let_def split: if_splits)
  then obtain s1 g1 i1 i' where e: "elements om1 = elements (model st) @
           [\<lparr>label = fmt VElement (num_elements st + 1), part = Element s1 ifc g1 i1 i'\<rparr>]"
      "num1 = num_elements st + 1" by blast
  show ?thesis using e
    by (intro exI[of _ "[\<lparr>label = fmt VElement (num_elements st + 1), part = Element s1 ifc g1 i1 i'\<rparr>]"])
       (simp add: counts_def)
next
  case n1: False
  show ?thesis
  proof (cases "num_eles > 1")
    case True
    have "\<exists>il. elements om1 = elements (model st) @
           [\<lparr>label = fmt VCementedElement (num_elements st + 1), part = CementedElement il\<rparr>]
         \<and> num1 = num_elements st + 1"
      using assms True n1
      by (fastforce simp: run_element_def bnd_Inr Let_def split: if_splits)
    then obtain il where e: "elements om1 = elements (model st) @
           [\<lparr>label = fmt VCementedElement (num_elements st + 1), part = CementedElement il\<rparr>]"
      "num1 = num_elements st + 1" by blast
    show ?thesis using e
      by (intro exI[of _ "[\<lparr>label = fmt VCementedElement (num_elements st + 1), part = CementedElement il\<rparr>]"])
         (simp add: counts_def)
  next
    case False
    with assms n1 have "om1 = model st" "num1 = num_elements st"
      by (auto simp: run_element_def)
    then show ?thesis by (intro exI[of _ "[]"]) simp
  qed
qed

text \<open>The air gap part that closes a run is built from the entry of the current round.\<close>

lemma getitem_last: "getitem (xs @ [v]) (- 1) = Inr v"
  by (simp add: getitem_def)

lemma run_element_plain:
  assumes "run_element fmt st num_eles eles1 i ifc g = Inr (om1, num1, i2, g2)"
    and "\<not> buried_reflector st"
  shows "i2 = i \<and> g2 = g"
  using assms
  by (auto simp: run_element_def bnd_Inr Let_def getitem_last split: if_splits)

lemma run_element_buried:
  assumes "run_element fmt st num_eles (xs @ [(i0, ifc0, g0)]) i ifc g = Inr (om1, num1, i2, g2)"
    and "buried_reflector st" and "0 < num_eles"
  shows "i2 = i0 \<and> g2 = g0"
  using assms
  by (auto simp: run_element_def bnd_Inr Let_def getitem_last split: if_splits)

lemma run_element_none:
  assumes "run_element fmt st 0 eles1 i ifc g = Inr (om1, num1, i2, g2)"
  shows "i2 = i \<and> g2 = g"
  using assms by (simp add: run_element_def)

lemma getitem_second:
  assumes "getitem (xs @ [v]) 1 = Inr w" and "length xs div 2 = 0"
  shows "w = v"
proof -
  from assms(2) have "length xs = 0 \<or> length xs = 1" by arith
  then show ?thesis
  proof
    assume "length xs = 0"
    with assms(1) show ?thesis by (simp add: getitem_def)
  next
    assume "length xs = 1"
    with assms(1) show ?thesis by (simp add: getitem_def nth_append)
  qed
qed

lemma close_run_stages:
  assumes "close_run fmt st i0 ifc0 g0 = Inr st'"
  shows "\<exists>num_eles eles1 i ifc g om1 num1 om2.
      run_element fmt st num_eles eles1 i ifc g = Inr (om1, num1, i0, g0)
    \<and> emit om1 \<lparr>label = fmt VAirGap i0, part = AirGap g0 i0\<rparr> None = Inr om2
    \<and> st' = \<lparr>model = om2, num_elements = num1, buried_reflector = False, eles = []\<rparr>"
proof (cases "buried_reflector st")
  case False
  with assms have "\<exists>om1 num1 i2 g2 om2.
      run_element fmt st (length (eles st)) (eles st) i0 ifc0 g0 = Inr (om1, num1, i2, g2)
    \<and> emit om1 \<lparr>label = fmt VAirGap i2, part = AirGap g2 i2\<rparr> None = Inr om2
    \<and> st' = \<lparr>model = om2, num_elements = num1, buried_reflector = False, eles = []\<rparr>"
    by (simp add: close_run_def Let_def bnd_Inr split_beta) (metis prod.collapse)
  then obtain om1 num1 i2 g2 om2 where
    re: "run_element fmt st (length (eles st)) (eles st) i0 ifc0 g0 = Inr (om1, num1, i2, g2)"
    and em: "emit om1 \<lparr>label = fmt VAirGap i2, part = AirGap g2 i2\<rparr> None = Inr om2"
    and st': "st' = \<lparr>model = om2, num_elements = num1, buried_reflector = False, eles = []\<rparr>"
    by blast
  from run_element_plain[OF re False] have "i2 = i0" "g2 = g0" by simp_all
  with re em st' show ?thesis by blast
next
  case True
  let ?eles1 = "eles st @ [(i0, ifc0, g0)]"
  let ?num = "length (eles st) div 2"
  from assms True have "\<exists>i ifc g om1 num1 i2 g2 om2.
      getitem ?eles1 1 = Inr (i, ifc, g)
    \<and> run_element fmt st ?num ?eles1 i ifc g = Inr (om1, num1, i2, g2)
    \<and> emit om1 \<lparr>label = fmt VAirGap i2, part = AirGap g2 i2\<rparr> None = Inr om2
    \<and> st' = \<lparr>model = om2, num_elements = num1, buried_reflector = False, eles = []\<rparr>"
    by (simp add: close_run_def Let_def bnd_Inr split_beta) (metis prod.collapse)
  then obtain i ifc g om1 num1 i2 g2 om2 where
    gi: "getitem ?eles1 1 = Inr (i, ifc, g)"
    and re: "run_element fmt st ?num ?eles1 i ifc g = Inr (om1, num1, i2, g2)"
    and em: "emit om1 \<lparr>label = fmt VAirGap i2, part = AirGap g2 i2\<rparr> None = Inr om2"
    and st': "st' = \<lparr>model = om2, num_elements = num1, buried_reflector = False, eles = []\<rparr>"
    by blast
  have "i2 = i0 \<and> g2 = g0"
  proof (cases "0 < ?num")
    case True
    from run_element_buried[OF re \<open>buried_reflector st\<close> True] show ?thesis .
  next
    case False
    then have z: "?num = 0" by simp
    from getitem_second[OF gi z] have "i = i0" "g = g0" by simp_all
    moreover from re z have "i2 = i \<and> g2 = g" using run_element_none by metis
    ultimately show ?thesis by simp
  qed
  with re em st' show ?thesis by blast
qed

lemma close_run_numbered:
  assumes "close_run fmt st i0 ifc0 g0 = Inr st'"
    and "i0 < length (gaps sm)" and "gaps sm ! i0 = g0"
  shows "\<exists>new. elements (model st') = elements (model st) @ new
               \<and> numbered fmt sm (num_elements st) new
               \<and> num_elements st' = num_elements st + sum_list (map counts new)"
proof -
  from close_run_stages[OF assms(1)]
  obtain num_eles eles1 i ifc g om1 num1 om2 where
    re: "run_element fmt st num_eles eles1 i ifc g = Inr (om1, num1, i0, g0)"
    and em: "emit om1 \<lparr>label = fmt VAirGap i0, part = AirGap g0 i0\<rparr> None = Inr om2"
    and st': "st' = \<lparr>model = om2, num_elements = num1, buried_reflector = False, eles = []\<rparr>"
    by blast
  from run_element_numbered[OF re, of sm] obtain new1 where
    n1: "elements om1 = elements (model st) @ new1" "numbered fmt sm (num_elements st) new1"
      "num1 = num_elements st + sum_list (map counts new1)" by blast
  let ?ag = "\<lparr>label = fmt VAirGap i0, part = AirGap g0 i0\<rparr>"
  have "elements (model st') = elements (model st) @ (new1 @ [?ag])"
    using emit_elements[OF em] n1 st' by simp
  moreover have "numbered fmt sm (num_elements st) (new1 @ [?ag])"
    using n1 assms(2,3) by (simp add: numbered_append)
  moreover have "num_elements st' = num_elements st + sum_list (map counts (new1 @ [?ag]))"
    using n1 st' by (simp add: counts_def)
  ultimately show ?thesis by blast
qed

text \<open>Entry \<open>i\<close> of the path holds surface \<open>i\<close> and, when it has a gap, gap \<open>i\<close>.\<close>

lemma length_path: "length (path sm) = length (ifcs sm)"
  by (simp add: path_def)

lemma path_nth:
  assumes "i < length (path sm)" and "path sm ! i = (ifc, Some g)"
  shows "i < length (ifcs sm) \<and> ifcs sm ! i = ifc \<and> i < length (gaps sm) \<and> gaps sm ! i = g"
proof -
  from assms(1) have li: "i < length (ifcs sm)" by (simp add: length_path)
  let ?gs = "map Some (gaps sm) @ replicate (length (ifcs sm) - length (gaps sm)) None"
  from li have lg: "i < length ?gs" by simp
  from assms(2) li lg have a: "ifcs sm ! i = ifc" and b: "?gs ! i = Some g"
    by (simp_all add: path_def)
  have "i < length (gaps sm)"
  proof (rule ccontr)
    assume "\<not> i < length (gaps sm)"
    with lg have "?gs ! i = None" by (simp add: nth_append)
    with b show False by simp
  qed
  moreover from this b have "gaps sm ! i = g" by (simp add: nth_append)
  ultimately show ?thesis using li a by simp
qed

lemma group_step_numbered:
  assumes "group_step fmt sm st i seg = Inr st'"
    and "i < length (path sm)" and "seg = path sm ! i"
  shows "\<exists>new. elements (model st') = elements (model st) @ new
               \<and> numbered fmt sm (num_elements st) new
               \<and> num_elements st' = num_elements st + sum_list (map counts new)"
proof (cases seg)
  case (Pair ifc go)
  show ?thesis
  proof (cases go)
    case None
    with Pair assms(1) have "st' = st" by (simp add: group_step_def)
    then show ?thesis by (intro exI[of _ "[]"]) simp
  next
    case (Some g)
    with Pair assms(3) have "path sm ! i = (ifc, Some g)" by simp
    from path_nth[OF assms(2) this]
    have pos: "i < length (ifcs sm)" "ifcs sm ! i = ifc" "i < length (gaps sm)" "gaps sm ! i = g"
      by simp_all
    show ?thesis
    proof (cases "is_air g")
      case air: True
      show ?thesis
      proof (cases "length (eles st) = 0")
        case e0: True
        show ?thesis
        proof (cases "i > 0")
          case True
          with assms(1) Pair Some air e0 obtain om1 n where
            pa: "process_airgap fmt (model st) sm i g ifc (num_elements st) True = Inr (om1, n)"
            and st': "st' = st\<lparr>model := om1, num_elements := n\<rparr>"
            by (auto simp: group_step_def bnd_Inr)
          from process_airgap_numbered[OF pa True pos] st' show ?thesis by auto
        next
          case False
          with assms(1) Pair Some air e0 have "st' = st" by (simp add: group_step_def)
          then show ?thesis by (intro exI[of _ "[]"]) simp
        qed
      next
        case False
        with assms(1) Pair Some air have "close_run fmt st i ifc g = Inr st'"
          by (simp add: group_step_def)
        from close_run_numbered[OF this pos(3,4)] show ?thesis .
      qed
    next
      case False
      with assms(1) Pair Some have "model st' = model st" "num_elements st' = num_elements st"
        by (auto simp: group_step_def)
      then show ?thesis by (intro exI[of _ "[]"]) simp
    qed
  qed
qed

lemma group_loop_numbered:
  "group_loop fmt sm i segs st = Inr st' \<Longrightarrow> segs = drop i (path sm) \<Longrightarrow>
     \<exists>new. elements (model st') = elements (model st) @ new
               \<and> numbered fmt sm (num_elements st) new
               \<and> num_elements st' = num_elements st + sum_list (map counts new)"
proof (induction segs arbitrary: i st)
  case Nil
  then show ?case by (intro exI[of _ "[]"]) simp
next
  case (Cons seg rest)
  from Cons.prems(2) have li: "i < length (path sm)"
    by (cases "i < length (path sm)") simp_all
  from Cons.prems(2) Cons_nth_drop_Suc[OF li]
  have "seg # rest = path sm ! i # drop (Suc i) (path sm)" by simp
  then have seg: "seg = path sm ! i" and rest: "rest = drop (Suc i) (path sm)" by simp_all
  from Cons.prems(1) obtain st1 where s1: "group_step fmt sm st i seg = Inr st1"
    and s2: "group_loop fmt sm (Suc i) rest st1 = Inr st'"
    by (auto simp: bnd_Inr)
  from group_step_numbered[OF s1 li seg] obtain new1 where
    a: "elements (model st1) = elements (model st) @ new1" "numbered fmt sm (num_elements st) new1"
       "num_elements st1 = num_elements st + sum_list (map counts new1)" by blast
  from Cons.IH[OF s2 rest] obtain new2 where
    b: "elements (model st') = elements (model st1) @ new2" "numbered fmt sm (num_elements st1) new2"
       "num_elements st' = num_elements st1 + sum_list (map counts new2)" by blast
  show ?case using a b by (intro exI[of _ "new1 @ new2"]) (simp add: numbered_append)
qed

text \<open>
  C7 (as amended).  Whenever \<open>elements_from_sequence\<close> returns, the parts it has
  added to the element model are labelled as \<open>numbered\<close> says, starting from counter
  value 0: lenses, cemented elements, mirrors and thin elements take the values
  1, 2, 3, \<dots> of one shared counter in the order of emission; every air gap part holds
  the gap at some position \<open>i\<close> of the gaps of the sequence and is labelled with that
  \<open>i\<close>; every dummy interface holds the surface at some position \<open>i > 0\<close> of
  the interfaces of the sequence and is labelled \<open>Stop\<close> when \<open>i\<close> is the stop
  surface, with that \<open>i\<close> otherwise.  Neither has a counter of its own.
\<close>

theorem labels_numbered:
  assumes "elements_from_sequence fmt om0 sm = Inr om1"
  shows "\<exists>new. elements om1 = elements om0 @ new \<and> numbered fmt sm 0 new"
proof -
  from assms obtain rt st where
    gl: "group_loop fmt sm 0 (path sm)
            \<lparr>model = om0\<lparr>root_node := rt\<rparr>, num_elements = 0,
             buried_reflector = False, eles = []\<rparr> = Inr st"
    and om1: "om1 = model st"
    by (auto simp: elements_from_sequence_def bnd_Inr)
  from group_loop_numbered[OF gl] om1 show ?thesis by auto
qed

theorem labels_numbered_witness:
  "bnd (elements_from_sequence fmt_ex empty_model mixed_seq) (\<lambda>om. Inr (elements om)) = Inr mixed_parts
   \<and> numbered fmt_ex mixed_seq 0 mixed_parts"
proof -
  have run: "bnd (elements_from_sequence fmt_ex empty_model mixed_seq) (\<lambda>om. Inr (elements om))
               = Inr mixed_parts" by code_simp
  then obtain om1 where om1: "elements_from_sequence fmt_ex empty_model mixed_seq = Inr om1"
    and el: "elements om1 = mixed_parts" by (auto simp: bnd_Inr)
  from labels_numbered[OF om1] obtain new where
    "elements om1 = elements empty_model @ new" "numbered fmt_ex mixed_seq 0 new" by blast
  then have "numbered fmt_ex mixed_seq 0 mixed_parts" using el by (simp add: empty_model_def)
  with run show ?thesis by simp
qed

text \<open>
  C7 as stated fails for the air gaps and the dummy interfaces: in the run on the mixed
  sequence the three air gap parts are labelled 2, 3, 4 and the only dummy interface 3,
  where counters of their own would give 1, 2, 3 and 1.
\<close>

theorem airgap_labels_are_indices:
  "bnd (elements_from_sequence fmt_ex empty_model mixed_seq) (\<lambda>om. Inr (map label (elements om)))
     = Inr [''E1'', ''AG2'', ''D3'', ''AG3'', ''M2'', ''AG4'']"
  by code_simp

text \<open>
  \<open>numbered\<close> ties a part to its place in the sequence: a part that holds gap 2 of
  the lens sequence under index 1, and a dummy interface with an index beyond the last
  surface, are not numbered parts of that sequence.
\<close>

lemma numbered_needs_position:
  "\<not> numbered fmt_ex lens_seq 0 [\<lparr>label = ''AG1'', part = AirGap (air_gap 2) 1\<rparr>]
   \<and> \<not> numbered fmt_ex lens_seq 0 [\<lparr>label = ''D9'', part = DummyInterface (surf 9 ''transmit'') 9\<rparr>]"
  by (simp add: lens_seq_def air_gap_def glass_gap_def)

section \<open>Attaching a fragment\<close>

lemma somes_append: "somes (xs @ ys) = somes xs @ somes ys"
  by (induction xs rule: somes.induct) auto

lemma set_somes: "v \<in> set (somes xs) \<longleftrightarrow> Some v \<in> set xs"
  by (induction xs rule: somes.induct) auto

lemma distinct_somes_filter:
  "distinct (somes (map f xs)) \<Longrightarrow> distinct (somes (map f (filter P xs)))"
proof (induction xs)
  case Nil
  then show ?case by simp
next
  case (Cons a xs)
  show ?case
  proof (cases "f a")
    case None
    with Cons show ?thesis by simp
  next
    case (Some v)
    with Cons.prems have d: "distinct (somes (map f xs))" and n: "v \<notin> set (somes (map f xs))" by auto
    have "v \<notin> set (somes (map f (filter P xs)))" using n by (auto simp: set_somes)
    with Cons.IH[OF d] Some show ?thesis by simp
  qed
qed

lemma count_somes:
  "length (filter (\<lambda>n. f n = Some v) xs) = count_list (somes (map f xs)) v"
proof (induction xs)
  case Nil
  then show ?case by simp
next
  case (Cons a xs)
  then show ?case by (cases "f a") auto
qed

lemma distinct_count_le1: "distinct xs \<Longrightarrow> count_list xs v \<le> 1"
  by (induction xs) (auto simp: count_list_0_iff)

lemma PreOrderIter_list_append:
  "PreOrderIter_list (xs @ ys) = PreOrderIter_list xs @ PreOrderIter_list ys"
  by (induction xs) auto

lemma PreOrderIter_unfold: "PreOrderIter n = n # PreOrderIter_list (children n)"
  by (cases n) simp

lemma ids_unfold: "map node_id (PreOrderIter n) = node_id n # below n"
  by (cases n) (simp add: below_def)

lemma below_Node: "below (Node n i t cs) = map node_id (PreOrderIter_list cs)"
  by (simp add: below_def)

lemma ids_list_split:
  assumes "k < length cs"
  shows "map node_id (PreOrderIter_list cs) =
           map node_id (PreOrderIter_list (take k cs)) @ map node_id (PreOrderIter (cs ! k))
             @ map node_id (PreOrderIter_list (drop (Suc k) cs))"
proof -
  have "cs = take k cs @ cs ! k # drop (Suc k) cs" using assms by (rule id_take_nth_drop)
  then have "PreOrderIter_list cs = PreOrderIter_list (take k cs @ cs ! k # drop (Suc k) cs)" by simp
  then show ?thesis by (simp add: PreOrderIter_list_append)
qed

lemma ids_list_update:
  assumes "k < length cs"
  shows "map node_id (PreOrderIter_list (cs[k := c])) =
           map node_id (PreOrderIter_list (take k cs)) @ map node_id (PreOrderIter c)
             @ map node_id (PreOrderIter_list (drop (Suc k) cs))"
proof -
  have "cs[k := c] = take k cs @ c # drop (Suc k) cs" using assms by (rule upd_conv_take_nth_drop)
  then show ?thesis by (simp add: PreOrderIter_list_append)
qed

lemma detach_keeps_root:
  "node_id (detach h n) = node_id n"
  by (cases h; cases n) auto

lemma detach_below:
  "subtree rt (k # h) = Some s \<Longrightarrow>
     \<exists>A B. below rt = A @ map node_id (PreOrderIter s) @ B \<and> below (detach (k # h) rt) = A @ B"
proof (induction h arbitrary: rt k)
  case Nil
  obtain n i t cs where rt: "rt = Node n i t cs" by (cases rt)
  from Nil rt have k: "k < length cs" and s: "s = cs ! k" by (auto split: if_splits)
  have "below rt = map node_id (PreOrderIter_list (take k cs)) @ map node_id (PreOrderIter s)
           @ map node_id (PreOrderIter_list (drop (Suc k) cs))"
    using ids_list_split[OF k] rt s by (simp add: below_Node)
  moreover have "below (detach [k] rt) = map node_id (PreOrderIter_list (take k cs))
           @ map node_id (PreOrderIter_list (drop (Suc k) cs))"
    using rt by (simp add: below_Node PreOrderIter_list_append)
  ultimately show ?case by blast
next
  case (Cons k' h')
  obtain n i t cs where rt: "rt = Node n i t cs" by (cases rt)
  from Cons.prems rt have k: "k < length cs" and s: "subtree (cs ! k) (k' # h') = Some s"
    by (auto split: if_splits)
  from Cons.IH[OF s] obtain A B where
    ab: "below (cs ! k) = A @ map node_id (PreOrderIter s) @ B"
        "below (detach (k' # h') (cs ! k)) = A @ B" by blast
  let ?c = "detach (k' # h') (cs ! k)"
  have d: "detach (k # k' # h') rt = Node n i t (cs[k := ?c])" using rt k by simp
  have "below rt = map node_id (PreOrderIter_list (take k cs)) @ (node_id (cs ! k) # below (cs ! k))
           @ map node_id (PreOrderIter_list (drop (Suc k) cs))"
    using ids_list_split[OF k] rt by (simp add: below_Node ids_unfold)
  moreover have "below (detach (k # k' # h') rt) =
      map node_id (PreOrderIter_list (take k cs)) @ (node_id ?c # below ?c)
           @ map node_id (PreOrderIter_list (drop (Suc k) cs))"
    using ids_list_update[OF k, of ?c] d by (simp add: below_Node ids_unfold)
  moreover have "node_id ?c = node_id (cs ! k)" by (rule detach_keeps_root)
  ultimately have
    "below rt = (map node_id (PreOrderIter_list (take k cs)) @ node_id (cs ! k) # A)
        @ map node_id (PreOrderIter s) @ (B @ map node_id (PreOrderIter_list (drop (Suc k) cs)))"
    "below (detach (k # k' # h') rt) = (map node_id (PreOrderIter_list (take k cs)) @ node_id (cs ! k) # A)
        @ (B @ map node_id (PreOrderIter_list (drop (Suc k) cs)))"
    using ab by simp_all
  then show ?case by blast
qed

lemma findall_sound:
  "h \<in> set (findall P n) \<Longrightarrow> \<exists>m. subtree n h = Some m \<and> P m"
  "h \<in> set (findall_from P k cs) \<Longrightarrow>
      \<exists>j h' m. h = (k + j) # h' \<and> j < length cs \<and> subtree (cs ! j) h' = Some m \<and> P m"
proof (induction P n and P k cs arbitrary: h and h rule: findall_findall_from.induct)
  case (1 P n i t cs)
  show ?case
  proof (cases "h = []")
    case True
    with 1(2) have "P (Node n i t cs)"
    proof -
      have "[] \<notin> set (findall_from P 0 cs)" using 1(1) by fastforce
      with 1(2) True show ?thesis by (auto split: if_splits)
    qed
    with True show ?thesis by simp
  next
    case False
    with 1(2) have "h \<in> set (findall_from P 0 cs)" by (auto split: if_splits)
    from 1(1)[OF this] show ?thesis by auto
  qed
next
  case (2 P k)
  then show ?case by simp
next
  case (3 P k c cs)
  from 3(3) consider "h \<in> (#) k ` set (findall P c)" | "h \<in> set (findall_from P (Suc k) cs)" by auto
  then show ?case
  proof cases
    case 1
    then obtain h' where "h = k # h'" "h' \<in> set (findall P c)" by auto
    with 3(1)[of h'] show ?thesis by (intro exI[of _ 0]) auto
  next
    case 2
    from 3(2)[OF this] obtain j h' m where "h = (Suc k + j) # h'" "j < length cs"
      "subtree (cs ! j) h' = Some m" "P m" by blast
    then show ?thesis by (intro exI[of _ "Suc j"]) auto
  qed
qed


lemma referents_unfold: "referents (PreOrderIter n) = somes (node_id n # below n)"
  by (simp add: referents_def ids_unfold)

lemma node_no_CountError:
  assumes "distinct (referents (PreOrderIter rt))"
  shows "node rt ob = Inr None \<and> Some ob \<notin> set (map node_id (PreOrderIter rt))
       \<or> (\<exists>h m. node rt ob = Inr (Some h) \<and> subtree rt h = Some m \<and> node_id m = Some ob)"
proof -
  let ?P = "\<lambda>n. node_id n = Some ob"
  have "length (findall ?P rt) = count_list (referents (PreOrderIter rt)) ob"
    by (simp add: findall_length(1) count_somes referents_def)
  also have "\<dots> \<le> 1" using assms by (rule distinct_count_le1)
  finally have le: "length (findall ?P rt) \<le> 1" .
  show ?thesis
  proof (cases "findall ?P rt")
    case Nil
    then have "filter ?P (PreOrderIter rt) = []" using findall_length(1)[of ?P rt] by simp
    then have "Some ob \<notin> set (map node_id (PreOrderIter rt))"
      by (auto simp: filter_empty_conv)
    with Nil show ?thesis by (simp add: node_def find_by_attr_id_def find_one_def)
  next
    case (Cons h hs)
    with le have hs: "hs = []" by simp
    from Cons have "h \<in> set (findall ?P rt)" by simp
    from findall_sound(1)[OF this] obtain m where "subtree rt h = Some m" "node_id m = Some ob" by blast
    with Cons hs show ?thesis by (simp add: node_def find_by_attr_id_def find_one_def)
  qed
qed

text \<open>One round of the loop of \<open>detach_dups\<close>, and the loop.\<close>

lemma detach_round:
  assumes d: "distinct (referents (PreOrderIter rt))"
    and s: "subtree rt h = Some m" and m: "node_id m = Some ob"
  shows "distinct (referents (PreOrderIter (detach h rt)))
       \<and> set (below (detach h rt)) \<subseteq> set (below rt)
       \<and> Some ob \<notin> set (below (detach h rt))"
proof (cases h)
  case Nil
  with s have "m = rt" by simp
  with m d have "Some ob \<notin> set (below rt)"
    by (simp add: referents_unfold set_somes)
  with Nil d show ?thesis by simp
next
  case (Cons k h')
  from detach_below[OF s[unfolded Cons]] obtain A B where
    ab: "below rt = A @ map node_id (PreOrderIter m) @ B" "below (detach (k # h') rt) = A @ B" by blast
  have hd: "map node_id (PreOrderIter m) = Some ob # below m" using m by (simp add: ids_unfold)
  from d have d': "distinct (somes (node_id rt # A @ (Some ob # below m) @ B))"
    using ab hd by (simp add: referents_unfold)
  have 1: "distinct (referents (PreOrderIter (detach h rt)))"
  proof -
    have "referents (PreOrderIter (detach h rt)) = somes (node_id rt # A @ B)"
      using ab Cons by (simp add: referents_unfold detach_keeps_root)
    moreover have "distinct (somes (node_id rt # A @ B))"
      using d' by (cases "node_id rt") (auto simp: somes_append)
    ultimately show ?thesis by simp
  qed
  have 2: "set (below (detach h rt)) \<subseteq> set (below rt)" using ab Cons by auto
  have 3: "Some ob \<notin> set (below (detach h rt))"
  proof -
    have "distinct (somes (A @ (Some ob # below m) @ B))"
      using d' by (cases "node_id rt") auto
    then have "ob \<notin> set (somes A)" "ob \<notin> set (somes B)" by (auto simp: somes_append)
    then show ?thesis using ab Cons by (auto simp: set_somes)
  qed
  from 1 2 3 show ?thesis by blast
qed

lemma detach_dups_invariant:
  assumes "distinct (referents (PreOrderIter rt))" and "\<forall>l \<in> set ls. node_id l \<noteq> None"
  shows "\<exists>rt1. detach_dups ls rt = Inr rt1
           \<and> distinct (referents (PreOrderIter rt1))
           \<and> set (below rt1) \<subseteq> set (below rt)
           \<and> (\<forall>l \<in> set ls. node_id l \<notin> set (below rt1))
           \<and> name rt1 = name rt \<and> node_id rt1 = node_id rt \<and> tag rt1 = tag rt"
  using assms
proof (induction ls arbitrary: rt)
  case Nil
  then show ?case by simp
next
  case (Cons l ls)
  from Cons.prems(2) obtain ob where ob: "node_id l = Some ob" by auto
  from node_no_CountError[OF Cons.prems(1), of ob]
  consider (none) "node rt ob = Inr None" "Some ob \<notin> set (map node_id (PreOrderIter rt))"
    | (some) h m where "node rt ob = Inr (Some h)" "subtree rt h = Some m" "node_id m = Some ob"
    by blast
  then show ?case
  proof cases
    case none
    have step: "detach_dups (l # ls) rt = detach_dups ls rt" using ob none(1) by (simp add: bnd_def)
    from Cons.IH[OF Cons.prems(1)] Cons.prems(2) obtain rt1 where
      r: "detach_dups ls rt = Inr rt1" "distinct (referents (PreOrderIter rt1))"
         "set (below rt1) \<subseteq> set (below rt)" "\<forall>l \<in> set ls. node_id l \<notin> set (below rt1)"
         "name rt1 = name rt \<and> node_id rt1 = node_id rt \<and> tag rt1 = tag rt" by auto
    have "Some ob \<notin> set (below rt)" using none(2) by (simp add: ids_unfold)
    with r(3) have "node_id l \<notin> set (below rt1)" using ob by auto
    with r step show ?thesis by auto
  next
    case some
    have step: "detach_dups (l # ls) rt = detach_dups ls (detach h rt)"
      using ob some(1) by (simp add: bnd_def)
    note dr = detach_round[OF Cons.prems(1) some(2,3)]
    from dr have d1: "distinct (referents (PreOrderIter (detach h rt)))" by blast
    from Cons.IH[OF d1] Cons.prems(2) obtain rt1 where
      r: "detach_dups ls (detach h rt) = Inr rt1" "distinct (referents (PreOrderIter rt1))"
         "set (below rt1) \<subseteq> set (below (detach h rt))" "\<forall>l \<in> set ls. node_id l \<notin> set (below rt1)"
         "name rt1 = name (detach h rt) \<and> node_id rt1 = node_id (detach h rt) \<and> tag rt1 = tag (detach h rt)"
      by auto
    have "node_id l \<notin> set (below rt1)" using dr r(3) ob by auto
    moreover have "set (below rt1) \<subseteq> set (below rt)" using dr r(3) by blast
    moreover have "name (detach h rt) = name rt \<and> tag (detach h rt) = tag rt"
      by (cases h; cases rt) auto
    ultimately show ?thesis using r step by (auto simp: detach_keeps_root)
  qed
qed

lemma leaves_Node_nonempty:
  "cs \<noteq> [] \<Longrightarrow> leaves (Node n i t cs) = filter (\<lambda>m. children m = []) (PreOrderIter_list cs)"
  by (simp add: leaves_def)

lemma PreOrderIter_list_snoc: "PreOrderIter_list (cs @ [c]) = PreOrderIter_list cs @ PreOrderIter c"
  by (simp add: PreOrderIter_list_append)

text \<open>
  C4 (as amended).  When no two nodes of the tree reference the same object and the
  leaves of the new fragment have referents that differ from each other,
  \<open>attach_fragment\<close> (the body of \<open>add_element_to_tree\<close>) succeeds; the fragment
  is the last child of the root; no node elsewhere below the root references the object
  of a leaf of the fragment any more, the earlier owners having been detached; and in the
  resulting tree each referent appears as a leaf at most once.
\<close>

theorem attach_supersedes:
  assumes "distinct (referents (PreOrderIter rt))"
      and "distinct (referents (leaves e_node))"
      and "\<forall>l \<in> set (leaves e_node). node_id l \<noteq> None"
  shows "\<exists>rt'. attach_fragment rt e_node = Inr rt'
           \<and> children rt' \<noteq> [] \<and> last (children rt') = e_node
           \<and> (\<forall>m \<in> set (PreOrderIter_list (butlast (children rt'))).
                 \<forall>l \<in> set (leaves e_node). node_id m \<noteq> node_id l)
           \<and> distinct (referents (leaves rt'))"
proof -
  from detach_dups_invariant[OF assms(1,3)] obtain rt1 where
    r: "detach_dups (leaves e_node) rt = Inr rt1" "distinct (referents (PreOrderIter rt1))"
       "\<forall>l \<in> set (leaves e_node). node_id l \<notin> set (below rt1)" by blast
  obtain n i t cs where rt1: "rt1 = Node n i t cs" by (cases rt1)
  let ?rt' = "Node n i t (cs @ [e_node])"
  have a: "attach_fragment rt e_node = Inr ?rt'" using r(1) rt1 by (simp add: attach_fragment_def bnd_def)
  have disj: "\<forall>m \<in> set (PreOrderIter_list cs). \<forall>l \<in> set (leaves e_node). node_id m \<noteq> node_id l"
  proof (intro ballI)
    fix m l assume m: "m \<in> set (PreOrderIter_list cs)" and l: "l \<in> set (leaves e_node)"
    from r(3) l rt1 have "node_id l \<notin> node_id ` set (PreOrderIter_list cs)" by (simp add: below_Node)
    with m show "node_id m \<noteq> node_id l" by (metis imageI)
  qed
  have dcs: "distinct (referents (PreOrderIter_list cs))"
    using r(2) rt1 by (cases i) (simp_all add: referents_def)
  have lv: "leaves ?rt' = filter (\<lambda>m. children m = []) (PreOrderIter_list cs) @ leaves e_node"
    by (simp add: leaves_Node_nonempty PreOrderIter_list_snoc leaves_def)
  have d1: "distinct (referents (filter (\<lambda>m. children m = []) (PreOrderIter_list cs)))"
    using dcs unfolding referents_def by (rule distinct_somes_filter)
  have d3: "set (referents (filter (\<lambda>m. children m = []) (PreOrderIter_list cs)))
              \<inter> set (referents (leaves e_node)) = {}"
  proof (rule ccontr)
    assume "\<not> ?thesis"
    then obtain v where v1: "v \<in> set (referents (filter (\<lambda>m. children m = []) (PreOrderIter_list cs)))"
      and v2: "v \<in> set (referents (leaves e_node))" by auto
    from v1 obtain m where "m \<in> set (PreOrderIter_list cs)" "node_id m = Some v"
      by (auto simp: referents_def set_somes)
    moreover from v2 obtain l where "l \<in> set (leaves e_node)" "node_id l = Some v"
      by (auto simp: referents_def set_somes)
    ultimately show False using disj by force
  qed
  have "distinct (referents (leaves ?rt'))"
    unfolding lv using d1 assms(2) d3 by (simp add: referents_def somes_append)
  with a disj show ?thesis by (intro exI[of _ ?rt']) simp
qed

text \<open>Attaching the lens to the tree of the lens sequence detaches the nodes
  \<open>i1\<close>, \<open>g1\<close>, \<open>i2\<close> under the root.\<close>

theorem attach_supersedes_witness:
  "attach_fragment lens_init_tree lens_fragment = Inr lens_attached_tree
   \<and> distinct (referents (leaves lens_attached_tree))"
proof -
  have h1: "distinct (referents (PreOrderIter lens_init_tree))" by code_simp
  have h2: "distinct (referents (leaves lens_fragment))" by code_simp
  have h3: "\<forall>l \<in> set (leaves lens_fragment). node_id l \<noteq> None" by code_simp
  have ev: "attach_fragment lens_init_tree lens_fragment = Inr lens_attached_tree" by code_simp
  from attach_supersedes[OF h1 h2 h3] ev
  have "distinct (referents (leaves lens_attached_tree))" by auto
  with ev show ?thesis by simp
qed

text \<open>
  C4 as stated fails.  In \<open>regroup_tree\<close>, the result of attaching the mirror twice,
  every referent appears as a leaf at most once.  Attaching the mirror a third time
  detaches the one interface node; its parent, a profile node, becomes a leaf, and the
  profile of the mirror surface is then the referent of two leaves.
\<close>

theorem attach_leaves_duplicate_leaf:
  "bnd (add_element_to_tree init_root mirror_ele None)
       (\<lambda>rt1. add_element_to_tree rt1 mirror_ele None) = Inr regroup_tree
   \<and> distinct (referents (leaves regroup_tree))
   \<and> add_element_to_tree regroup_tree mirror_ele None = Inr regroup_result
   \<and> \<not> distinct (referents (leaves regroup_result))"
  by code_simp

section \<open>The tag of a dummy interface\<close>

lemma subtree_in_PreOrderIter:
  "subtree n h = Some m \<Longrightarrow> m \<in> set (PreOrderIter n)"
proof (induction h arbitrary: n)
  case Nil
  then show ?case by (simp add: PreOrderIter_unfold)
next
  case (Cons k h)
  obtain a i t cs where n: "n = Node a i t cs" by (cases n)
  from Cons.prems n have k: "k < length cs" and s: "subtree (cs ! k) h = Some m"
    by (auto split: if_splits)
  from Cons.IH[OF s] have "m \<in> set (PreOrderIter (cs ! k))" .
  moreover have "set (PreOrderIter (cs ! k)) \<subseteq> set (PreOrderIter_list cs)"
    using ids_list_split[OF k] id_take_nth_drop[OF k]
    by (metis PreOrderIter_list.simps(2) PreOrderIter_list_append Un_iff set_append subsetI)
  ultimately show ?case using n by auto
qed

lemma detach_keeps_child:
  assumes "subtree rt h = Some m" and "c \<in> set (children rt)" and "m \<notin> set (PreOrderIter c)"
  shows "c \<in> set (children (detach h rt))"
proof (cases h)
  case Nil
  with assms show ?thesis by simp
next
  case (Cons k h')
  obtain a i t cs where rt: "rt = Node a i t cs" by (cases rt)
  from assms(1) Cons rt have k: "k < length cs" and s: "subtree (cs ! k) h' = Some m"
    by (auto split: if_splits)
  from subtree_in_PreOrderIter[OF s] assms(3) have ne: "c \<noteq> cs ! k" by auto
  from assms(2) rt have "c \<in> set cs" by simp
  then obtain j where j: "j < length cs" "cs ! j = c" by (auto simp: in_set_conv_nth)
  with ne have jk: "j \<noteq> k" by auto
  show ?thesis
  proof (cases "h' = []")
    case True
    have "c \<in> set (take k cs @ drop (Suc k) cs)"
    proof (cases "j < k")
      case True
      then have "take k cs ! j = c" using j by simp
      moreover have "j < length (take k cs)" using True k by simp
      ultimately have "c \<in> set (take k cs)" by (metis nth_mem)
      then show ?thesis by simp
    next
      case False
      with jk have "k < j" by simp
      then obtain d where d: "j = Suc k + d" by (metis less_iff_Suc_add add_Suc)
      then have "drop (Suc k) cs ! d = c" using j by simp
      moreover have "d < length (drop (Suc k) cs)" using d j by simp
      ultimately have "c \<in> set (drop (Suc k) cs)" by (metis nth_mem)
      then show ?thesis by simp
    qed
    with True Cons rt show ?thesis by simp
  next
    case False
    have "cs[k := detach h' (cs ! k)] ! j = c" using j jk by simp
    moreover have "j < length (cs[k := detach h' (cs ! k)])" using j by simp
    ultimately have "c \<in> set (cs[k := detach h' (cs ! k)])" by (metis nth_mem)
    with False Cons rt k show ?thesis by simp
  qed
qed

lemma node_found:
  assumes "node rt ob = Inr (Some h)"
  shows "\<exists>m. subtree rt h = Some m \<and> node_id m = Some ob"
proof -
  from assms have "findall (\<lambda>n. node_id n = Some ob) rt = [h]"
    by (auto simp: node_def find_by_attr_id_def find_one_def split: list.splits)
  then have "h \<in> set (findall (\<lambda>n. node_id n = Some ob) rt)" by simp
  from findall_sound(1)[OF this] show ?thesis .
qed

lemma detach_dups_keeps_child:
  "detach_dups ls rt = Inr rt1 \<Longrightarrow> c \<in> set (children rt) \<Longrightarrow>
   \<forall>m \<in> set (PreOrderIter c). \<forall>l \<in> set ls. node_id m \<noteq> node_id l \<Longrightarrow>
   c \<in> set (children rt1)"
proof (induction ls arbitrary: rt)
  case Nil
  then show ?case by simp
next
  case (Cons l ls)
  from Cons.prems(1) obtain ob where ob: "node_id l = Some ob"
    by (cases "node_id l") auto
  from Cons.prems(1) ob obtain dup where dup: "node rt ob = Inr dup"
    and rest: "(case dup of None \<Rightarrow> detach_dups ls rt | Some h \<Rightarrow> detach_dups ls (detach h rt)) = Inr rt1"
    by (auto simp: bnd_Inr)
  have sub: "\<forall>m \<in> set (PreOrderIter c). \<forall>l \<in> set ls. node_id m \<noteq> node_id l"
    using Cons.prems(3) by simp
  show ?case
  proof (cases dup)
    case None
    with rest have "detach_dups ls rt = Inr rt1" by simp
    from Cons.IH[OF this Cons.prems(2) sub] show ?thesis .
  next
    case (Some h)
    with rest have r: "detach_dups ls (detach h rt) = Inr rt1" by simp
    from node_found[OF dup[unfolded Some]] obtain m where m: "subtree rt h = Some m" "node_id m = Some ob"
      by blast
    have "m \<notin> set (PreOrderIter c)" using Cons.prems(3) m(2) ob by auto
    from detach_keeps_child[OF m(1) Cons.prems(2) this] have "c \<in> set (children (detach h rt))" .
    from Cons.IH[OF r this sub] show ?thesis .
  qed
qed

lemma attach_fragment_children:
  assumes "attach_fragment rt f = Inr rt'"
  shows "f \<in> set (children rt')"
    and "c \<in> set (children rt) \<Longrightarrow>
         \<forall>m \<in> set (PreOrderIter c). \<forall>l \<in> set (leaves f). node_id m \<noteq> node_id l \<Longrightarrow>
         c \<in> set (children rt')"
proof -
  from assms obtain rt1 where d: "detach_dups (leaves f) rt = Inr rt1"
    and r: "rt' = append_child [] f rt1" by (auto simp: attach_fragment_def bnd_Inr)
  obtain a i t cs where rt1: "rt1 = Node a i t cs" by (cases rt1)
  show "f \<in> set (children rt')" using r rt1 by simp
  assume c: "c \<in> set (children rt)"
    and n: "\<forall>m \<in> set (PreOrderIter c). \<forall>l \<in> set (leaves f). node_id m \<noteq> node_id l"
  from detach_dups_keeps_child[OF d c n] show "c \<in> set (children rt')" using r rt1 by simp
qed

lemma emit_dummy_then_airgap:
  assumes "emit om \<lparr>label = lb, part = DummyInterface s i\<rparr> tg = Inr om1"
      and "emit om1 \<lparr>label = la, part = AirGap g i\<rparr> None = Inr om2"
  shows "elements om2 = elements om @ [\<lparr>label = lb, part = DummyInterface s i\<rparr>, \<lparr>label = la, part = AirGap g i\<rparr>]"
    and "part_tag om2 \<lparr>label = lb, part = DummyInterface s i\<rparr> (''#dummyifc'' @ tag_suffix tg)"
proof -
  let ?di = "\<lparr>label = lb, part = DummyInterface s i\<rparr>"
  let ?ag = "\<lparr>label = la, part = AirGap g i\<rparr>"
  let ?fd = "set_name lb (tree ?di tg)"
  let ?fa = "set_name la (tree ?ag None)"
  show "elements om2 = elements om @ [?di, ?ag]"
    using emit_elements[OF assms(1)] emit_elements[OF assms(2)] by simp
  from assms(1) have a1: "attach_fragment (root_node om) ?fd = Inr (root_node om1)"
    by (auto simp: emit_def bnd_Inr add_element_to_tree_def)
  from assms(2) have a2: "attach_fragment (root_node om1) ?fa = Inr (root_node om2)"
    by (auto simp: emit_def bnd_Inr add_element_to_tree_def)
  have fd: "?fd = Node lb (Some (EleObj ?di)) (''#dummyifc'' @ tag_suffix tg)
                    [Node ''di'' (Some (IfcObj s)) ''#ifc'' []]"
    by (simp add: set_name_def tree_def)
  have fa: "leaves ?fa = [Node (''g'' @ str_nat i) (Some (GapObj g)) ''#gap'' []]"
    by (simp add: set_name_def tree_def leaves_def gap_node_def)
  have c1: "?fd \<in> set (children (root_node om1))" using attach_fragment_children(1)[OF a1] .
  have "\<forall>m \<in> set (PreOrderIter ?fd). \<forall>l \<in> set (leaves ?fa). node_id m \<noteq> node_id l"
    unfolding fa fd by simp
  from attach_fragment_children(2)[OF a2 c1 this] have "?fd \<in> set (children (root_node om2))" .
  then show "part_tag om2 ?di (''#dummyifc'' @ tag_suffix tg)"
    unfolding part_tag_def fd by force
qed


lemma dummy_choice_cases:
  assumes "dummy_choice fmt sm i = Inr ch"
  shows "ch = (if i = 0 then Some (''Object'', Some ''#object'')
               else if preceding_gap_is_air sm i then
                 (if stop_surface sm = Some (int i) then Some (''Stop'', Some ''#stop'')
                  else Some (fmt VDummyInterface i, None))
               else None)"
  using assms
  by (auto simp: dummy_choice_def preceding_gap_is_air_def bnd_Inr split: if_splits)

text \<open>
  C8.  When \<open>process_airgap\<close> handles a transmitting interface that is not turned
  into a thin element, and returns: for surface 0 it emits a dummy interface labelled
  \<open>Object\<close> whose node is tagged \<open>#object\<close>; for a later surface after an air
  gap it emits a dummy interface whose node is tagged \<open>#stop\<close> exactly when the
  index of the surface is the stop index of the sequence, and carries no tag beyond that
  of its variant otherwise; for a surface after a gap that is not air it emits no dummy
  interface.  The air gap part follows in every case and the element counter stays.
\<close>

theorem process_airgap_dummy_tag:
  assumes tr: "interact_mode s = ''transmit''" and nt: "\<not> (is_thinlens s \<and> add_ele)"
      and run: "process_airgap fmt om sm i g s n add_ele = Inr (om', n')"
  shows "(i = 0 \<longrightarrow>
            elements om' = elements om @ [\<lparr>label = ''Object'', part = DummyInterface s i\<rparr>,
                                          \<lparr>label = fmt VAirGap i, part = AirGap g i\<rparr>]
            \<and> part_tag om' \<lparr>label = ''Object'', part = DummyInterface s i\<rparr> ''#dummyifc#object'')
       \<and> (preceding_gap_is_air sm i \<and> stop_surface sm = Some (int i) \<longrightarrow>
            elements om' = elements om @ [\<lparr>label = ''Stop'', part = DummyInterface s i\<rparr>,
                                          \<lparr>label = fmt VAirGap i, part = AirGap g i\<rparr>]
            \<and> part_tag om' \<lparr>label = ''Stop'', part = DummyInterface s i\<rparr> ''#dummyifc#stop'')
       \<and> (preceding_gap_is_air sm i \<and> stop_surface sm \<noteq> Some (int i) \<longrightarrow>
            elements om' = elements om @ [\<lparr>label = fmt VDummyInterface i, part = DummyInterface s i\<rparr>,
                                          \<lparr>label = fmt VAirGap i, part = AirGap g i\<rparr>]
            \<and> part_tag om' \<lparr>label = fmt VDummyInterface i, part = DummyInterface s i\<rparr> ''#dummyifc'')
       \<and> (0 < i \<and> \<not> preceding_gap_is_air sm i \<longrightarrow>
            elements om' = elements om @ [\<lparr>label = fmt VAirGap i, part = AirGap g i\<rparr>])
       \<and> n' = n"
proof -
  let ?ag = "\<lparr>label = fmt VAirGap i, part = AirGap g i\<rparr>"
  from run obtain om1 n1 where
    first: "airgap_surface fmt om sm i s n add_ele = Inr (om1, n1)"
    and second: "emit om1 ?ag None = Inr om'" and n': "n' = n1"
    by (auto simp: process_airgap_def bnd_Inr)
  from tr have nr: "interact_mode s \<noteq> ''reflect''" by simp
  from first tr nr nt obtain ch where ch: "dummy_choice fmt sm i = Inr ch"
    and rest: "(case ch of
            None \<Rightarrow> Inr (om, n)
          | Some (dummy_label, dummy_tag) \<Rightarrow>
              bnd (emit om \<lparr>label = dummy_label, part = DummyInterface s i\<rparr> dummy_tag) (\<lambda>om1.
                Inr (om1, n))) = Inr (om1, n1)"
    by (auto simp: airgap_surface_def bnd_Inr)
  note cc = dummy_choice_cases[OF ch]
  have emitted: "\<And>lb tg. ch = Some (lb, tg) \<Longrightarrow>
      elements om' = elements om @ [\<lparr>label = lb, part = DummyInterface s i\<rparr>, ?ag]
      \<and> part_tag om' \<lparr>label = lb, part = DummyInterface s i\<rparr> (''#dummyifc'' @ tag_suffix tg)
      \<and> n1 = n"
  proof -
    fix lb tg assume "ch = Some (lb, tg)"
    with rest have e: "emit om \<lparr>label = lb, part = DummyInterface s i\<rparr> tg = Inr om1" and "n1 = n"
      by (auto simp: bnd_Inr)
    with emit_dummy_then_airgap[OF e second]
    show "elements om' = elements om @ [\<lparr>label = lb, part = DummyInterface s i\<rparr>, ?ag]
      \<and> part_tag om' \<lparr>label = lb, part = DummyInterface s i\<rparr> (''#dummyifc'' @ tag_suffix tg)
      \<and> n1 = n" by simp
  qed
  have skipped: "ch = None \<Longrightarrow> elements om' = elements om @ [?ag] \<and> n1 = n"
  proof -
    assume "ch = None"
    with rest have "om1 = om" "n1 = n" by auto
    with emit_elements[OF second] show ?thesis by simp
  qed
  have c1: "i = 0 \<longrightarrow>
            elements om' = elements om @ [\<lparr>label = ''Object'', part = DummyInterface s i\<rparr>, ?ag]
            \<and> part_tag om' \<lparr>label = ''Object'', part = DummyInterface s i\<rparr> ''#dummyifc#object''"
  proof
    assume i0: "i = 0"
    with cc have "ch = Some (''Object'', Some ''#object'')" by simp
    from emitted[OF this] show "elements om' = elements om @ [\<lparr>label = ''Object'', part = DummyInterface s i\<rparr>, ?ag]
            \<and> part_tag om' \<lparr>label = ''Object'', part = DummyInterface s i\<rparr> ''#dummyifc#object''"
      by (simp add: tag_suffix_def)
  qed
  have c2: "preceding_gap_is_air sm i \<and> stop_surface sm = Some (int i) \<longrightarrow>
            elements om' = elements om @ [\<lparr>label = ''Stop'', part = DummyInterface s i\<rparr>, ?ag]
            \<and> part_tag om' \<lparr>label = ''Stop'', part = DummyInterface s i\<rparr> ''#dummyifc#stop''"
    using cc emitted[of "''Stop''" "Some ''#stop''"]
    by (auto simp: tag_suffix_def preceding_gap_is_air_def)
  have c3: "preceding_gap_is_air sm i \<and> stop_surface sm \<noteq> Some (int i) \<longrightarrow>
            elements om' = elements om @ [\<lparr>label = fmt VDummyInterface i, part = DummyInterface s i\<rparr>, ?ag]
            \<and> part_tag om' \<lparr>label = fmt VDummyInterface i, part = DummyInterface s i\<rparr> ''#dummyifc''"
    using cc emitted[of "fmt VDummyInterface i" None]
    by (auto simp: tag_suffix_def preceding_gap_is_air_def)
  have c4: "0 < i \<and> \<not> preceding_gap_is_air sm i \<longrightarrow> elements om' = elements om @ [?ag]"
    using cc skipped by auto
  have c5: "n' = n"
  proof (cases ch)
    case None
    with skipped n' show ?thesis by simp
  next
    case (Some lt)
    then show ?thesis using emitted[of "fst lt" "snd lt"] n' by simp
  qed
  from c1 c2 c3 c4 c5 show ?thesis by blast
qed

theorem process_airgap_dummy_tag_witness:
  "process_airgap fmt_ex empty_model stop_seq 1 (air_gap 1) (surf 1 ''transmit'') 0 True
     = Inr (\<lparr>elements = [stop_ele, ag1_ele], root_node = stop_tree\<rparr>, 0)
   \<and> part_tag \<lparr>elements = [stop_ele, ag1_ele], root_node = stop_tree\<rparr> stop_ele ''#dummyifc#stop''
   \<and> process_airgap fmt_ex empty_model lens_seq 0 (air_gap 0) (surf 0 ''transmit'') 0 True
     = Inr (\<lparr>elements = [object_ele, ag0_ele], root_node = object_tree\<rparr>, 0)
   \<and> part_tag \<lparr>elements = [object_ele, ag0_ele], root_node = object_tree\<rparr> object_ele ''#dummyifc#object''"
proof -
  have tr: "interact_mode (surf 1 ''transmit'') = ''transmit''" "interact_mode (surf 0 ''transmit'') = ''transmit''"
    by code_simp+
  have nt: "\<not> (is_thinlens (surf 1 ''transmit'') \<and> True)" "\<not> (is_thinlens (surf 0 ''transmit'') \<and> True)"
    by code_simp+
  have run1: "process_airgap fmt_ex empty_model stop_seq 1 (air_gap 1) (surf 1 ''transmit'') 0 True
     = Inr (\<lparr>elements = [stop_ele, ag1_ele], root_node = stop_tree\<rparr>, 0)" by code_simp
  have run0: "process_airgap fmt_ex empty_model lens_seq 0 (air_gap 0) (surf 0 ''transmit'') 0 True
     = Inr (\<lparr>elements = [object_ele, ag0_ele], root_node = object_tree\<rparr>, 0)" by code_simp
  have pg: "preceding_gap_is_air stop_seq 1" "stop_surface stop_seq = Some (int 1)" by code_simp+
  have "part_tag \<lparr>elements = [stop_ele, ag1_ele], root_node = stop_tree\<rparr> stop_ele ''#dummyifc#stop''"
    using process_airgap_dummy_tag[OF tr(1) nt(1) run1] pg by (simp add: stop_ele_def)
  moreover have "part_tag \<lparr>elements = [object_ele, ag0_ele], root_node = object_tree\<rparr> object_ele ''#dummyifc#object''"
    using process_airgap_dummy_tag[OF tr(2) nt(2) run0] by (simp add: object_ele_def)
  ultimately show ?thesis using run1 run0 by simp
qed

section \<open>Refreshing the names twice\<close>

lemma update_attrs_idem:
  assumes "update_attrs d sm pn nm i = Inr (nm', i')"
      and "\<forall>e. i' = Some (EleObj e) \<longrightarrow> \<not> schema_prefixed (label e)"
  shows "update_attrs d sm pn nm' i' = Inr (nm', i')"
proof (cases nm)
  case Nil
  with assms(1) show ?thesis by (simp add: update_attrs_def)
next
  case (Cons c rest)
  consider (i) "c = CHR ''i''" | (g) "c = CHR ''g''" | (p) "c = CHR ''p''"
    | (di) "c \<noteq> CHR ''i''" "c \<noteq> CHR ''g''" "c \<noteq> CHR ''p''" "take 2 nm = ''di''"
    | (tl) "c \<noteq> CHR ''i''" "c \<noteq> CHR ''g''" "c \<noteq> CHR ''p''" "take 2 nm \<noteq> ''di''" "take 2 nm = ''tl''"
    | (other) "c \<noteq> CHR ''i''" "c \<noteq> CHR ''g''" "c \<noteq> CHR ''p''" "take 2 nm \<noteq> ''di''" "take 2 nm \<noteq> ''tl''"
    by blast
  then show ?thesis
  proof cases
    case i
    with assms(1) Cons obtain ob idx where "i = Some ob" "index_of (map IfcObj (ifcs sm)) ob = Inr idx"
      "nm' = ''i'' @ str_nat idx" "i' = i"
      by (auto simp: update_attrs_def bnd_Inr split: option.splits)
    then show ?thesis by (simp add: update_attrs_def bnd_def)
  next
    case g
    with assms(1) Cons obtain ob idx where "i = Some ob" "index_of (map GapObj (gaps sm)) ob = Inr idx"
      "nm' = ''g'' @ str_nat idx" "i' = i"
      by (auto simp: update_attrs_def bnd_Inr split: option.splits)
    then show ?thesis by (simp add: update_attrs_def bnd_def)
  next
    case p
    with assms(1) Cons have nm': "nm' = nm"
      by (auto simp: update_attrs_def bnd_Inr split: if_splits)
    have "update_attrs d sm pn nm i' = update_attrs d sm pn nm i"
      using p Cons by (simp add: update_attrs_def)
    with assms(1) nm' show ?thesis by simp
  next
    case di
    with assms(1) Cons obtain e s idx where "parent_element d pn = Inr e" "ref_ifc e = Inr s"
      "index_of (map IfcObj (ifcs sm)) (IfcObj s) = Inr idx" "nm' = ''di'' @ str_nat idx" "i' = Some (IfcObj s)"
      by (auto simp: update_attrs_def bnd_Inr)
    then show ?thesis by (simp add: update_attrs_def bnd_def)
  next
    case tl
    with assms(1) Cons obtain e s idx where "parent_element d pn = Inr e" "intrfc e = Inr s"
      "index_of (map IfcObj (ifcs sm)) (IfcObj s) = Inr idx" "nm' = ''tl'' @ str_nat idx" "i' = Some (IfcObj s)"
      by (auto simp: update_attrs_def bnd_Inr)
    then show ?thesis by (simp add: update_attrs_def bnd_def)
  next
    case other
    from assms(1) Cons other obtain ob where ob: "i = Some ob" and i': "i' = i"
      by (auto simp: update_attrs_def split: option.splits obj.splits)
    show ?thesis
    proof (cases ob)
      case (EleObj e)
      with assms(1) Cons other ob have nm': "nm' = label e"
        by (auto simp: update_attrs_def)
      from assms(2) i' ob EleObj have ns: "\<not> schema_prefixed (label e)" by simp
      then obtain c' r' where l: "label e = c' # r'" "c' \<noteq> CHR ''i''" "c' \<noteq> CHR ''g''" "c' \<noteq> CHR ''p''"
        "take 2 (label e) \<noteq> ''di''" "take 2 (label e) \<noteq> ''tl''"
        by (cases "label e") (auto simp: schema_prefixed_def)
      show ?thesis using nm' i' ob EleObj l
        by (auto simp: update_attrs_def)
    next
      case PartTreeObj
      with assms(1) Cons other ob i' have "nm' = nm" by (auto simp: update_attrs_def)
      with assms(1) i' show ?thesis by simp
    next
      case (IfcObj s)
      with assms(1) Cons other ob i' have "nm' = nm" by (auto simp: update_attrs_def)
      with assms(1) i' show ?thesis by simp
    next
      case (GapObj s)
      with assms(1) Cons other ob i' have "nm' = nm" by (auto simp: update_attrs_def)
      with assms(1) i' show ?thesis by simp
    next
      case (ProfileObj s)
      with assms(1) Cons other ob i' have "nm' = nm" by (auto simp: update_attrs_def)
      with assms(1) i' show ?thesis by simp
    qed
  qed
qed

lemma update_idem:
  "update_node d sm pn n = Inr n1 \<Longrightarrow> labels_ok (PreOrderIter n1) \<Longrightarrow> update_node d sm pn n1 = Inr n1"
  "update_list d sm pn cs = Inr cs1 \<Longrightarrow> labels_ok (PreOrderIter_list cs1) \<Longrightarrow> update_list d sm pn cs1 = Inr cs1"
proof (induction d sm pn n and d sm pn cs arbitrary: n1 and cs1 rule: update_node_update_list.induct)
  case (1 d sm pn n i t cs)
  from "1.prems"(1) obtain n' i' cs' where
    a: "update_attrs d sm pn n i = Inr (n', i')" and
    l: "update_list d sm (Some n') cs = Inr cs'" and
    n1: "n1 = Node n' i' t cs'"
    by (auto simp: bnd_Inr)
  from "1.prems"(2) n1 have ok1: "\<forall>e. i' = Some (EleObj e) \<longrightarrow> \<not> schema_prefixed (label e)"
    and ok2: "labels_ok (PreOrderIter_list cs')"
    by (auto simp: labels_ok_def)
  have a2: "update_attrs d sm pn n' i' = Inr (n', i')" using update_attrs_idem[OF a ok1] .
  have l2: "update_list d sm (Some n') cs' = Inr cs'"
    using "1.IH"[OF l ok2] .
  show ?case using n1 a2 l2 by (simp add: bnd_def)
next
  case (2 d sm pn)
  then show ?case by simp
next
  case (3 d sm pn c cs)
  from "3.prems"(1) obtain c' cs' where
    a: "update_node d sm pn c = Inr c'" and
    l: "update_list d sm pn cs = Inr cs'" and
    e: "cs1 = c' # cs'"
    by (auto simp: bnd_Inr)
  from "3.prems"(2) e have ok1: "labels_ok (PreOrderIter c')" and ok2: "labels_ok (PreOrderIter_list cs')"
    by (auto simp: labels_ok_def)
  have "update_node d sm pn c' = Inr c'" using "3.IH"(1)[OF a ok1] .
  moreover have "update_list d sm pn cs' = Inr cs'" using "3.IH"(2)[OF l ok2] .
  ultimately show ?case using e by (simp add: bnd_def)
qed

text \<open>
  C6 (as amended).  When \<open>sync_part_tree_on_update\<close> has returned a tree in which no
  node references an element with an empty label or a label beginning with \<open>i\<close>,
  \<open>g\<close>, \<open>p\<close>, \<open>di\<close> or \<open>tl\<close>, a second call over the same sequence and
  elements returns as well and leaves the tree as it is: every node has the name (and
  the referent) the first call gave it.
\<close>

theorem update_twice:
  assumes "sync_part_tree_on_update ele_model sm rt = Inr rt1"
      and "\<forall>n \<in> set (PreOrderIter rt1). \<forall>e. node_id n = Some (EleObj e) \<longrightarrow> \<not> schema_prefixed (label e)"
  shows "sync_part_tree_on_update ele_model sm rt1 = Inr rt1"
  using assms update_idem(1)[of "ele_dict ele_model" sm None rt rt1]
  by (simp add: sync_part_tree_on_update_def labels_ok_def)

theorem update_twice_witness:
  "sync_part_tree_on_update [stop_ele, ag1_ele] stop_seq stop_tree = Inr stop_synced
   \<and> sync_part_tree_on_update [stop_ele, ag1_ele] stop_seq stop_synced = Inr stop_synced"
proof -
  have first: "sync_part_tree_on_update [stop_ele, ag1_ele] stop_seq stop_tree = Inr stop_synced"
    by code_simp
  have ok: "\<forall>n \<in> set (PreOrderIter stop_synced). \<forall>e. node_id n = Some (EleObj e)
              \<longrightarrow> \<not> schema_prefixed (label e)"
    by (simp add: stop_synced_def stop_ele_def ag1_ele_def schema_prefixed_def)
  from update_twice[OF first ok] first show ?thesis by simp
qed

text \<open>
  C6 as stated fails.  In \<open>nested_tree\<close> the node of a part labelled \<open>diaphragm\<close>
  lies below the node of the dummy interface \<open>Stop\<close>: the first call names it
  \<open>diaphragm\<close>, the second takes that name for the name of a \<open>di\<close> node and
  renames it \<open>di1\<close>.  In \<open>iris_tree\<close> the dummy interface has been relabelled
  \<open>iris\<close>: the first call names its node \<open>iris\<close>, the second takes that name for
  the name of an interface node, looks the element up among the interfaces and raises
  \<open>ValueError\<close>.
\<close>

theorem update_twice_renames:
  "bnd (sync_part_tree_on_update [stop_ele, dia_ele] stop_seq nested_tree)
       (\<lambda>t1. Inr (map name (PreOrderIter t1)))
     = Inr [''root'', ''Stop'', ''diaphragm'', ''g1'']
   \<and> bnd (sync_part_tree_on_update [stop_ele, dia_ele] stop_seq nested_tree)
       (\<lambda>t1. bnd (sync_part_tree_on_update [stop_ele, dia_ele] stop_seq t1)
          (\<lambda>t2. Inr (map name (PreOrderIter t2))))
     = Inr [''root'', ''Stop'', ''di1'', ''g1'']
   \<and> bnd (sync_part_tree_on_update [iris_ele, ag1_ele] stop_seq iris_tree)
       (\<lambda>t1. Inr (map name (PreOrderIter t1)))
     = Inr [''root'', ''iris'', ''di1'', ''AG1'', ''g1'']
   \<and> bnd (sync_part_tree_on_update [iris_ele, ag1_ele] stop_seq iris_tree)
       (\<lambda>t1. sync_part_tree_on_update [iris_ele, ag1_ele] stop_seq t1)
     = Inl ValueError"
  by code_simp

end
